theory Spec2Isabelle
  imports Main "HOL-Library.Multiset" "HOL-Library.Option_ord"
begin

section \<open>The dex ingestion stage of redex-tool (Tool.cpp)\<close>

text \<open>
  Tool.cpp discovers the dex files of an unpacked application, sorts those of the root
  store with \<open>dex_comparator\<close>, loads every store and returns the vector of stores.
  Paths and names are byte strings (\<open>std::string\<close>, \<open>fs::path\<close> on POSIX), modelled
  as \<open>string\<close>. The C and C++ library routines the file calls (\<open>strcmp\<close>, \<open>atoi\<close>,
  \<open>std::string::rfind\<close>, \<open>fs::path::stem\<close>, \<open>std::sort\<close>, \<open>boost::split\<close>) are
  written out as functions; the collaborators of the repository (jar loader, dex loader,
  metadata parser, file system) are fields of an environment record.
\<close>

subsection \<open>Library routines on strings\<close>

text \<open>\<open>s.rfind(c)\<close>: the index of the last occurrence, \<open>None\<close> for \<open>npos\<close>.\<close>

fun rfind :: "char \<Rightarrow> string \<Rightarrow> nat option" where
  "rfind c [] = None"
| "rfind c (x # xs) =
     (case rfind c xs of
        Some i \<Rightarrow> Some (Suc i)
      | None \<Rightarrow> if x = c then Some 0 else None)"

text \<open>
  \<open>s.substr(s.rfind(c) + 1)\<close>. The index type is unsigned, so \<open>npos + 1\<close> is 0 and the
  whole string results when \<open>c\<close> does not occur.
\<close>

definition substr_after_last :: "char \<Rightarrow> string \<Rightarrow> string" where
  "substr_after_last c s =
     (case rfind c s of Some i \<Rightarrow> drop (Suc i) s | None \<Rightarrow> s)"

text \<open>
  \<open>strcmp\<close> on the \<open>c_str()\<close> of two strings: the difference of the first pair of
  differing bytes, read as unsigned char; the end of a string is its terminating 0 byte,
  and the comparison stops at a 0 byte. This is the value glibc, musl and the BSD libc
  return.
\<close>

fun strcmp :: "string \<Rightarrow> string \<Rightarrow> int" where
  "strcmp [] [] = 0"
| "strcmp [] (y # ys) = - int (of_char y)"
| "strcmp (x # xs) [] = int (of_char x)"
| "strcmp (x # xs) (y # ys) =
     (if x = y then (if of_char x = (0::nat) then 0 else strcmp xs ys)
      else int (of_char x) - int (of_char y))"

definition isspace :: "char \<Rightarrow> bool" where
  "isspace c = (let n = of_char c :: nat in n = 32 \<or> (9 \<le> n \<and> n \<le> 13))"

definition isdigit :: "char \<Rightarrow> bool" where
  "isdigit c = (let n = of_char c :: nat in 48 \<le> n \<and> n \<le> 57)"

text \<open>The digit loop of \<open>strtol\<close> in base 10: it stops at the first byte that is no digit.\<close>

fun strtol_digits :: "int \<Rightarrow> string \<Rightarrow> int" where
  "strtol_digits acc [] = acc"
| "strtol_digits acc (c # cs) =
     (if isdigit c then strtol_digits (acc * 10 + (int (of_char c) - 48)) cs else acc)"

definition LONG_MAX :: int where
  "LONG_MAX = 2 ^ 63 - 1"

definition LONG_MIN :: int where
  "LONG_MIN = - (2 ^ 63)"

text \<open>
  \<open>strtol(s, NULL, 10)\<close> with a 64-bit \<open>long\<close>: white space is skipped, one sign is
  read, the digits are read, and a value out of range is clamped.
\<close>

definition strtol :: "string \<Rightarrow> int" where
  "strtol s =
     (let s1 = dropWhile isspace s;
          v = (case s1 of
                 [] \<Rightarrow> 0
               | c # r \<Rightarrow>
                   if c = CHR ''-'' then - strtol_digits 0 r
                   else if c = CHR ''+'' then strtol_digits 0 r
                   else strtol_digits 0 s1)
      in max LONG_MIN (min LONG_MAX v))"

text \<open>The conversion of a \<open>long\<close> to a 32-bit \<open>int\<close> keeps the low 32 bits.\<close>

definition to_int32 :: "int \<Rightarrow> int" where
  "to_int32 v = (v + 2 ^ 31) mod 2 ^ 32 - 2 ^ 31"

text \<open>
  \<open>atoi(s)\<close> is \<open>(int) strtol(s, NULL, 10)\<close>, as glibc and the BSD libc define it. (The C
  standard leaves the result undefined when the value does not fit an \<open>int\<close>.)
\<close>

definition atoi :: "string \<Rightarrow> int" where
  "atoi s = to_int32 (strtol s)"

subsection \<open>Paths\<close>

text \<open>
  \<open>fs::path::filename()\<close> for a path a directory iterator yields (it never ends in a
  separator): the part after the last separator.
\<close>

definition filename :: "string \<Rightarrow> string" where
  "filename p = substr_after_last CHR ''/'' p"

text \<open>
  \<open>fs::path::stem()\<close> and \<open>fs::path::extension()\<close> (Boost.Filesystem 3): the file name
  is cut at its last dot; the names \<open>.\<close> and \<open>..\<close> have no extension.
\<close>

definition stem :: "string \<Rightarrow> string" where
  "stem p =
     (let name = filename p in
      if name = ''.'' \<or> name = ''..'' then name
      else case rfind CHR ''.'' name of None \<Rightarrow> name | Some pos \<Rightarrow> take pos name)"

definition extension :: "string \<Rightarrow> string" where
  "extension p =
     (let name = filename p in
      if name = ''.'' \<or> name = ''..'' then []
      else case rfind CHR ''.'' name of None \<Rightarrow> [] | Some pos \<Rightarrow> drop pos name)"

subsection \<open>The comparator\<close>

definition dex_comparator :: "string \<Rightarrow> string \<Rightarrow> bool" where
  "dex_comparator a b =
     (let as = stem a;
          bs = stem b;
          adashed = (rfind CHR ''-'' as \<noteq> None);
          bdashed = (rfind CHR ''-'' bs \<noteq> None)
      in if \<not> adashed \<and> bdashed then True
         else if adashed \<and> \<not> bdashed then False
         else if \<not> adashed \<and> \<not> bdashed then strcmp as bs > 1
         else (let anum = atoi (substr_after_last CHR ''-'' as);
                   bnum = atoi (substr_after_last CHR ''-'' bs)
               in bnum > anum))"

subsection \<open>Sorting\<close>

text \<open>
  \<open>std::sort(first, last, cmp)\<close> promises a permutation of the range in which no
  element is followed by one that \<open>cmp\<close> puts before it, provided \<open>cmp\<close> is a strict
  weak order. \<open>sort_post\<close> is that postcondition.
\<close>

definition sort_post :: "('a \<Rightarrow> 'a \<Rightarrow> bool) \<Rightarrow> 'a list \<Rightarrow> 'a list \<Rightarrow> bool" where
  "sort_post cmp xs ys = (mset ys = mset xs \<and> sorted_wrt (\<lambda>x y. \<not> cmp y x) ys)"

text \<open>
  The executable model of \<open>std::sort\<close> is the insertion sort that libstdc++ runs on a
  range of at most 16 elements. On a longer range the library runs introsort, which may
  return elements that the comparator does not order in another sequence; what holds of a
  range of any length is stated with \<open>sort_post\<close> or up to permutation.
  \<open>unguarded_linear_insert\<close> works on the sorted prefix
  read backwards: the value moves down past every element it is to precede.
  \<open>insertion_step\<close> first compares the value with the first element of the prefix and
  puts it in front when it precedes that one.
\<close>

fun unguarded_linear_insert :: "('a \<Rightarrow> 'a \<Rightarrow> bool) \<Rightarrow> 'a \<Rightarrow> 'a list \<Rightarrow> 'a list" where
  "unguarded_linear_insert cmp val [] = [val]"
| "unguarded_linear_insert cmp val (e # rp) =
     (if cmp val e then e # unguarded_linear_insert cmp val rp else val # e # rp)"

definition insertion_step :: "('a \<Rightarrow> 'a \<Rightarrow> bool) \<Rightarrow> 'a list \<Rightarrow> 'a \<Rightarrow> 'a list" where
  "insertion_step cmp pre val =
     (case pre of
        [] \<Rightarrow> [val]
      | first # _ \<Rightarrow>
          if cmp val first then val # pre
          else rev (unguarded_linear_insert cmp val (rev pre)))"

definition std_sort :: "('a \<Rightarrow> 'a \<Rightarrow> bool) \<Rightarrow> 'a list \<Rightarrow> 'a list" where
  "std_sort cmp xs = foldl (insertion_step cmp) [] xs"

subsection \<open>The collaborators\<close>

text \<open>The file types \<open>fs::status\<close> tells apart, as far as Tool.cpp asks.\<close>

datatype file_type = file_not_found | regular_file | directory_file | other_file

text \<open>
  \<open>std::invalid_argument\<close> and \<open>std::runtime_error\<close> are thrown by \<open>Tool::init\<close> itself;
  \<open>LoadFailure\<close> and \<open>ParseFailure\<close> stand for whatever the dex loader and the metadata
  parser throw. An exception is the \<open>Inl\<close> of a result.
\<close>

datatype error =
    InvalidArgument string
  | RuntimeError string
  | LoadFailure string
  | ParseFailure string

text \<open>
  Modelled from the spec: \<open>DexMetadata\<close> and \<open>DexStore\<close> (DexStore.h is not under src/).
  A module descriptor is a name with an ordered sequence of container-file paths; a store
  is a named, ordered collection of loaded class batches, named from its descriptor.
\<close>

record dex_metadata =
  id_str :: string
  dependencies :: "string list"
  files :: "string list"

record 'c dex_store =
  m_metadata :: dex_metadata
  m_dexen :: "'c list list"

definition DexStore_named :: "string \<Rightarrow> 'c dex_store" where
  "DexStore_named name =
     \<lparr>m_metadata = \<lparr>id_str = name, dependencies = [], files = []\<rparr>, m_dexen = []\<rparr>"

definition DexStore_of :: "dex_metadata \<Rightarrow> 'c dex_store" where
  "DexStore_of metadata = \<lparr>m_metadata = metadata, m_dexen = []\<rparr>"

definition get_name :: "'c dex_store \<Rightarrow> string" where
  "get_name store = id_str (m_metadata store)"

definition add_classes :: "'c dex_store \<Rightarrow> 'c list \<Rightarrow> 'c dex_store" where
  "add_classes store classes = store\<lparr>m_dexen := m_dexen store @ [classes]\<rparr>"

text \<open>
  Modelled from the spec: \<open>build_class_scope\<close> (DexUtil.h is not under src/) flattens the
  stores, keeping the order of the stores and each store's load order.
\<close>

definition build_class_scope :: "'c dex_store list \<Rightarrow> 'c list" where
  "build_class_scope stores = concat (concat (map m_dexen stores))"

text \<open>
  The calls on the collaborators, in the order they are made. The trace is the state
  that every loading function takes and returns. (The lines written to \<open>std::cout\<close>
  are not recorded.)
\<close>

datatype 'c event =
    LoadJar string
  | LoadDex string
  | ParseMetadata string
  | InitReachable "'c list"

text \<open>
  The environment: the file system (\<open>fs::status\<close>, and the paths a
  \<open>fs::directory_iterator\<close> yields, in the order it yields them), \<open>load_jar_file\<close>,
  \<open>load_classes_from_dex\<close> and \<open>DexMetadata::parse\<close>, each a function of the path it
  is given.
\<close>

record 'c env =
  status :: "string \<Rightarrow> file_type"
  directory_entries :: "string \<Rightarrow> string list"
  load_jar_file :: "string \<Rightarrow> bool"
  load_classes_from_dex :: "string \<Rightarrow> error + 'c list"
  parse :: "string \<Rightarrow> error + dex_metadata"

definition is_regular_file :: "'c env \<Rightarrow> string \<Rightarrow> bool" where
  "is_regular_file env p = (status env p = regular_file)"

definition is_directory :: "'c env \<Rightarrow> string \<Rightarrow> bool" where
  "is_directory env p = (status env p = directory_file)"

definition exists_file :: "'c env \<Rightarrow> string \<Rightarrow> bool" where
  "exists_file env p = (status env p \<noteq> file_not_found)"

definition preferred_separator :: char where
  "preferred_separator = CHR ''/''"

subsection \<open>Loading the stores\<close>

text \<open>
  The loop shared by \<open>load_root_dexen\<close> and \<open>load_store_dexen\<close>: each file is loaded
  and its classes are added to the store; an exception of the loader ends the loop.
\<close>

fun load_each ::
  "'c env \<Rightarrow> string list \<Rightarrow> 'c dex_store \<Rightarrow> 'c event list \<Rightarrow>
   (error + 'c dex_store) \<times> 'c event list" where
  "load_each env [] store t = (Inr store, t)"
| "load_each env (dex # rest) store t =
     (case load_classes_from_dex env dex of
        Inl e \<Rightarrow> (Inl e, t @ [LoadDex dex])
      | Inr classes \<Rightarrow> load_each env rest (add_classes store classes) (t @ [LoadDex dex]))"

text \<open>The discovery loop of \<open>load_root_dexen\<close> over the directory entries.\<close>

fun discover_dexen :: "'c env \<Rightarrow> string list \<Rightarrow> string list" where
  "discover_dexen env [] = []"
| "discover_dexen env (file # rest) =
     (if is_regular_file env file \<and> extension file = ''.dex''
      then file # discover_dexen env rest
      else discover_dexen env rest)"

definition load_root_dexen ::
  "'c env \<Rightarrow> 'c dex_store \<Rightarrow> string \<Rightarrow> 'c event list \<Rightarrow>
   (error + 'c dex_store) \<times> 'c event list" where
  "load_root_dexen env store dexen_dir_path t =
     (let dexen = discover_dexen env (directory_entries env dexen_dir_path);
          sorted_dexen = std_sort dex_comparator dexen
      in load_each env sorted_dexen store t)"

definition load_store_dexen ::
  "'c env \<Rightarrow> 'c dex_store \<Rightarrow> dex_metadata \<Rightarrow> 'c event list \<Rightarrow>
   (error + 'c dex_store) \<times> 'c event list" where
  "load_store_dexen env store store_metadata t =
     load_each env (files store_metadata) store t"

text \<open>The loop of \<open>list_modules\<close> over the directory entries.\<close>

definition module_metadata :: "string \<Rightarrow> string" where
  "module_metadata file = file @ [preferred_separator] @ filename file @ ''.json''"

fun list_modules_loop :: "'c env \<Rightarrow> string list \<Rightarrow> string list" where
  "list_modules_loop env [] = []"
| "list_modules_loop env (file # rest) =
     (let metadata = module_metadata file in
      if is_directory env file \<and> is_regular_file env metadata \<and> exists_file env metadata
      then filename file # list_modules_loop env rest
      else list_modules_loop env rest)"

definition list_modules :: "'c env \<Rightarrow> string \<Rightarrow> string list" where
  "list_modules env path = list_modules_loop env (directory_entries env path)"

subsection \<open>Tool::init\<close>

text \<open>
  \<open>boost::split(result, input, boost::is_any_of(delims))\<close> without token compression:
  the pieces between the delimiters, one more than there are delimiters.
\<close>

fun split :: "string \<Rightarrow> string \<Rightarrow> string list" where
  "split delims [] = [[]]"
| "split delims (c # cs) =
     (if c \<in> set delims then [] # split delims cs
      else case split delims cs of
             [] \<Rightarrow> [[c]]
           | token # tokens \<Rightarrow> (c # token) # tokens)"

definition quote :: string where
  "quote = [CHR 0x27]"

text \<open>The loop over the system jars.\<close>

fun load_jars ::
  "'c env \<Rightarrow> string list \<Rightarrow> 'c event list \<Rightarrow> (error + unit) \<times> 'c event list" where
  "load_jars env [] t = (Inr (), t)"
| "load_jars env (system_jar # rest) t =
     (if \<not> load_jar_file env system_jar
      then (Inl (RuntimeError (''Could not load system jar file '' @ quote @ system_jar @ quote)),
            t @ [LoadJar system_jar])
      else load_jars env rest (t @ [LoadJar system_jar]))"

text \<open>The loop over the modules: parse the metadata, make the store, load it, append it.\<close>

definition metadata_path_of :: "string \<Rightarrow> string \<Rightarrow> string" where
  "metadata_path_of dexen_dir_path module =
     dexen_dir_path @ [preferred_separator] @ module @ [preferred_separator]
       @ module @ ''.json''"

fun load_modules ::
  "'c env \<Rightarrow> string \<Rightarrow> string list \<Rightarrow> 'c dex_store list \<Rightarrow> 'c event list \<Rightarrow>
   (error + 'c dex_store list) \<times> 'c event list" where
  "load_modules env dexen_dir_path [] stores t = (Inr stores, t)"
| "load_modules env dexen_dir_path (module # rest) stores t =
     (let metadata_path = metadata_path_of dexen_dir_path module;
          t1 = t @ [ParseMetadata metadata_path]
      in case parse env metadata_path of
           Inl e \<Rightarrow> (Inl e, t1)
         | Inr store_metadata \<Rightarrow>
             (case load_store_dexen env (DexStore_of store_metadata) store_metadata t1 of
                (Inl e, t2) \<Rightarrow> (Inl e, t2)
              | (Inr store, t2) \<Rightarrow>
                  load_modules env dexen_dir_path rest (stores @ [store]) t2))"

text \<open>
  \<open>Tool::init\<close>. The result is the vector of stores or the exception, together with the
  trace of the calls made. \<open>apk_dir\<close> is not used.
\<close>

definition init ::
  "'c env \<Rightarrow> string \<Rightarrow> string \<Rightarrow> string \<Rightarrow>
   (error + 'c dex_store list) \<times> 'c event list" where
  "init env system_jar_paths apk_dir dexen_dir_str =
     (if \<not> is_directory env dexen_dir_str
      then (Inl (InvalidArgument (quote @ dexen_dir_str @ quote @ '' is not a directory'')), [])
      else case load_jars env (split '':,'' system_jar_paths) [] of
             (Inl e, t) \<Rightarrow> (Inl e, t)
           | (Inr u, t) \<Rightarrow>
               (case load_root_dexen env (DexStore_named ''dex'') dexen_dir_str t of
                  (Inl e, t1) \<Rightarrow> (Inl e, t1)
                | (Inr root_store, t1) \<Rightarrow>
                    (case load_modules env dexen_dir_str (list_modules env dexen_dir_str)
                            [root_store] t1 of
                       (Inl e, t2) \<Rightarrow> (Inl e, t2)
                     | (Inr stores, t2) \<Rightarrow>
                         (Inr stores, t2 @ [InitReachable (build_class_scope stores)]))))"

subsection \<open>The vocabulary of the properties\<close>

text \<open>
  What \<open>dex_comparator\<close> reads off a path: whether the stem has a dash, the substring
  after the last dash, and the number \<open>atoi\<close> makes of it. \<open>sort_key\<close> puts a stem
  without dash before every stem with one.
\<close>

definition dashed :: "string \<Rightarrow> bool" where
  "dashed p = (rfind CHR ''-'' (stem p) \<noteq> None)"

definition suffix_of :: "string \<Rightarrow> string" where
  "suffix_of p = substr_after_last CHR ''-'' (stem p)"

definition suffix_number :: "string \<Rightarrow> int" where
  "suffix_number p = atoi (suffix_of p)"

definition sort_key :: "string \<Rightarrow> int option" where
  "sort_key p = (if dashed p then Some (suffix_number p) else None)"

text \<open>
  The decimal digits \<open>atoi\<close> reads: those that follow the leading white space and one
  optional sign.
\<close>

definition digits_of :: "string \<Rightarrow> string" where
  "digits_of s =
     takeWhile isdigit
       (case dropWhile isspace s of
          [] \<Rightarrow> []
        | c # r \<Rightarrow> if c = CHR ''-'' \<or> c = CHR ''+'' then r else c # r)"

text \<open>
  A strict weak order on a set: irreflexive, transitive, and with a transitive
  incomparability.
\<close>

definition strict_weak_order_on :: "'a set \<Rightarrow> ('a \<Rightarrow> 'a \<Rightarrow> bool) \<Rightarrow> bool" where
  "strict_weak_order_on S r =
     ((\<forall>a\<in>S. \<not> r a a) \<and>
      (\<forall>a\<in>S. \<forall>b\<in>S. \<forall>c\<in>S. r a b \<and> r b c \<longrightarrow> r a c) \<and>
      (\<forall>a\<in>S. \<forall>b\<in>S. \<forall>c\<in>S.
         \<not> r a b \<and> \<not> r b a \<and> \<not> r b c \<and> \<not> r c b \<longrightarrow> \<not> r a c \<and> \<not> r c a))"

text \<open>
  A trace in which every dex load succeeded, and a trace that ends with the call that
  raised \<open>e\<close>.
\<close>

definition loads_ok :: "'c env \<Rightarrow> 'c event list \<Rightarrow> bool" where
  "loads_ok env t = (\<forall>p. LoadDex p \<in> set t \<longrightarrow> \<not> isl (load_classes_from_dex env p))"

definition aborted :: "'c env \<Rightarrow> error \<Rightarrow> 'c event list \<Rightarrow> bool" where
  "aborted env e t =
     (\<exists>t0 ev. t = t0 @ [ev] \<and> loads_ok env t0 \<and>
        (\<forall>p. ev = LoadDex p \<longrightarrow> load_classes_from_dex env p = Inl e))"

text \<open>
  The store \<open>Tool::init\<close> makes of a module: its metadata is what the parser returned
  for the module's metadata path, and its class batches are the loads of the files of that
  metadata, one batch per file, in the order of the metadata.
\<close>

definition module_store :: "'c env \<Rightarrow> string \<Rightarrow> string \<Rightarrow> 'c dex_store \<Rightarrow> bool" where
  "module_store env dexen_dir module store =
     (parse env (metadata_path_of dexen_dir module) = Inr (m_metadata store) \<and>
      map (load_classes_from_dex env) (files (m_metadata store)) = map Inr (m_dexen store))"

definition jar_error :: "string \<Rightarrow> error" where
  "jar_error j = RuntimeError (''Could not load system jar file '' @ quote @ j @ quote)"

text \<open>
  An example installation: a dexen directory with two dex files and two subdirectories,
  of which only \<open>modA\<close> holds a metadata file of its own name; the jars \<open>b.jar\<close> and
  the empty path do not load. In \<open>failing_env\<close> the dex file \<open>a.dex\<close> does not load.
\<close>

definition example_metadata :: dex_metadata where
  "example_metadata = \<lparr>id_str = ''modA'', dependencies = [], files = [''b.dex'', ''a.dex'']\<rparr>"

definition example_env :: "string env" where
  "example_env =
     \<lparr>status = (\<lambda>p.
        if p \<in> {''dexen'', ''dexen/modA'', ''dexen/modB''} then directory_file
        else if p \<in> {''dexen/classes.dex'', ''dexen/secondary-1.dex'',
                       ''dexen/modA/modA.json'', ''dexen/modB/module_b.json''}
        then regular_file
        else file_not_found),
      directory_entries = (\<lambda>p.
        if p = ''dexen''
        then [''dexen/modB'', ''dexen/secondary-1.dex'', ''dexen/modA'', ''dexen/classes.dex'']
        else []),
      load_jar_file = (\<lambda>j. j \<noteq> ''b.jar'' \<and> j \<noteq> []),
      load_classes_from_dex = (\<lambda>p. Inr [p]),
      parse = (\<lambda>p. Inr example_metadata)\<rparr>"

definition failing_env :: "string env" where
  "failing_env =
     example_env\<lparr>load_classes_from_dex :=
       (\<lambda>p. if p = ''a.dex'' then Inl (LoadFailure p) else Inr [p])\<rparr>"

text \<open>
  A second installation, with two modules that the directory yields in the order
  \<open>modB\<close>, \<open>modA\<close>; each metadata path parses to its own descriptor.
\<close>

definition two_module_env :: "string env" where
  "two_module_env =
     \<lparr>status = (\<lambda>p.
        if p \<in> {''dexen'', ''dexen/modB'', ''dexen/modA''} then directory_file
        else if p \<in> {''dexen/classes.dex'', ''dexen/modB/modB.json'',
                       ''dexen/modA/modA.json''}
        then regular_file
        else file_not_found),
      directory_entries = (\<lambda>p.
        if p = ''dexen'' then [''dexen/modB'', ''dexen/classes.dex'', ''dexen/modA'']
        else []),
      load_jar_file = (\<lambda>j. True),
      load_classes_from_dex = (\<lambda>p. Inr [p]),
      parse = (\<lambda>p.
        if p = ''dexen/modB/modB.json''
        then Inr \<lparr>id_str = ''modB'', dependencies = [], files = [''b1.dex'']\<rparr>
        else if p = ''dexen/modA/modA.json''
        then Inr \<lparr>id_str = ''modA'', dependencies = [], files = [''a2.dex'', ''a1.dex'']\<rparr>
        else Inl (ParseFailure p))\<rparr>"

section \<open>Properties\<close>

subsection \<open>Evaluation\<close>

lemmas order_defs = dex_comparator_def stem_def filename_def substr_after_last_def
  atoi_def strtol_def isspace_def isdigit_def to_int32_def LONG_MAX_def LONG_MIN_def

lemmas io_defs = init_def load_root_dexen_def load_store_dexen_def list_modules_def
  module_metadata_def metadata_path_of_def preferred_separator_def is_regular_file_def
  is_directory_def exists_file_def DexStore_named_def DexStore_of_def add_classes_def
  build_class_scope_def get_name_def quote_def std_sort_def insertion_step_def
  extension_def

subsection \<open>Insertion sort\<close>

lemma mset_unguarded_linear_insert:
  "mset (unguarded_linear_insert cmp v rp) = add_mset v (mset rp)"
  by (induction rp) simp_all

lemma mset_insertion_step: "mset (insertion_step cmp pre v) = add_mset v (mset pre)"
  by (simp add: insertion_step_def mset_unguarded_linear_insert split: list.split)

lemma mset_foldl_insertion_step:
  "mset (foldl (insertion_step cmp) acc xs) = mset acc + mset xs"
  by (induction xs arbitrary: acc) (simp_all add: mset_insertion_step)

lemma mset_std_sort: "mset (std_sort cmp xs) = mset xs"
  by (simp add: std_sort_def mset_foldl_insertion_step)

lemma set_unguarded_linear_insert:
  "set (unguarded_linear_insert cmp v rp) = insert v (set rp)"
  using mset_unguarded_linear_insert [of cmp v rp, THEN arg_cong [where f = set_mset]]
  by simp

lemma sorted_unguarded_linear_insert:
  fixes key :: "'a \<Rightarrow> 'k::linorder"
  assumes "\<And>e. e \<in> set rp \<Longrightarrow> cmp v e \<longleftrightarrow> key v < key e"
    and "sorted (map key (rev rp))"
  shows "sorted (map key (rev (unguarded_linear_insert cmp v rp)))"
  using assms
proof (induction rp)
  case Nil
  then show ?case by simp
next
  case (Cons e rp)
  show ?case
  proof (cases "cmp v e")
    case True
    then have lt: "key v < key e" using Cons.prems(1) by simp
    have "sorted (map key (rev (unguarded_linear_insert cmp v rp)))"
      using Cons by (simp add: sorted_append)
    moreover have "\<forall>x \<in> set (unguarded_linear_insert cmp v rp). key x \<le> key e"
      using Cons.prems(2) lt by (auto simp: set_unguarded_linear_insert sorted_append)
    ultimately show ?thesis using True by (simp add: sorted_append)
  next
    case False
    then have "key e \<le> key v" using Cons.prems(1) by (simp add: not_less)
    then show ?thesis using False Cons.prems(2) by (fastforce simp: sorted_append)
  qed
qed

lemma sorted_insertion_step:
  fixes key :: "'a \<Rightarrow> 'k::linorder"
  assumes "\<And>e. e \<in> set pre \<Longrightarrow> cmp v e \<longleftrightarrow> key v < key e"
    and "sorted (map key pre)"
  shows "sorted (map key (insertion_step cmp pre v))"
proof (cases pre)
  case Nil
  then show ?thesis by (simp add: insertion_step_def)
next
  case (Cons f rest)
  show ?thesis
  proof (cases "cmp v f")
    case True
    then have "key v < key f" using assms(1) Cons by simp
    then show ?thesis using True Cons assms(2) by (fastforce simp: insertion_step_def)
  next
    case False
    have "sorted (map key (rev (unguarded_linear_insert cmp v (rev pre))))"
      by (rule sorted_unguarded_linear_insert) (use assms in auto)
    then show ?thesis using False Cons by (simp add: insertion_step_def rev_map)
  qed
qed

lemma sorted_foldl_insertion_step:
  fixes key :: "'a \<Rightarrow> 'k::linorder"
  assumes "\<And>a b. a \<in> set acc \<union> set xs \<Longrightarrow> b \<in> set acc \<union> set xs \<Longrightarrow> cmp a b \<longleftrightarrow> key a < key b"
    and "sorted (map key acc)"
  shows "sorted (map key (foldl (insertion_step cmp) acc xs))"
  using assms
proof (induction xs arbitrary: acc)
  case Nil
  then show ?case by simp
next
  case (Cons x xs)
  have s: "sorted (map key (insertion_step cmp acc x))"
    by (rule sorted_insertion_step) (use Cons.prems in auto)
  have st: "set (insertion_step cmp acc x) = insert x (set acc)"
    using mset_insertion_step [of cmp acc x, THEN arg_cong [where f = set_mset]] by simp
  show ?case
    unfolding foldl_Cons
    by (rule Cons.IH) (use Cons.prems(1) s st in auto)
qed

lemma sorted_std_sort:
  fixes key :: "'a \<Rightarrow> 'k::linorder"
  assumes "\<And>a b. a \<in> set xs \<Longrightarrow> b \<in> set xs \<Longrightarrow> cmp a b \<longleftrightarrow> key a < key b"
  shows "sorted (map key (std_sort cmp xs))"
  unfolding std_sort_def
  by (rule sorted_foldl_insertion_step) (use assms in auto)

lemma sort_post_key:
  fixes key :: "'a \<Rightarrow> 'k::linorder"
  assumes "\<And>a b. a \<in> set xs \<Longrightarrow> b \<in> set xs \<Longrightarrow> cmp a b \<longleftrightarrow> key a < key b"
  shows "sort_post cmp xs ys \<longleftrightarrow> mset ys = mset xs \<and> sorted (map key ys)"
proof (cases "mset ys = mset xs")
  case True
  then have "set ys = set xs" by (metis set_mset_mset)
  then have r: "\<And>x y. x \<in> set ys \<Longrightarrow> y \<in> set ys \<Longrightarrow> (\<not> cmp y x) = (key x \<le> key y)"
    using assms by (simp add: not_less)
  have "sorted_wrt (\<lambda>x y. \<not> cmp y x) ys = sorted_wrt (\<lambda>x y. key x \<le> key y) ys"
  proof
    assume "sorted_wrt (\<lambda>x y. \<not> cmp y x) ys"
    then show "sorted_wrt (\<lambda>x y. key x \<le> key y) ys"
      by (rule sorted_wrt_mono_rel [rotated]) (simp add: r)
  next
    assume "sorted_wrt (\<lambda>x y. key x \<le> key y) ys"
    then show "sorted_wrt (\<lambda>x y. \<not> cmp y x) ys"
      by (rule sorted_wrt_mono_rel [rotated]) (simp add: r)
  qed
  then show ?thesis using True by (simp add: sort_post_def sorted_map)
next
  case False
  then show ?thesis by (simp add: sort_post_def)
qed

lemma sort_post_std_sort:
  fixes key :: "'a \<Rightarrow> 'k::linorder"
  assumes "\<And>a b. a \<in> set xs \<Longrightarrow> b \<in> set xs \<Longrightarrow> cmp a b \<longleftrightarrow> key a < key b"
  shows "sort_post cmp xs (std_sort cmp xs)"
  using assms by (simp add: sort_post_key [where key = key] mset_std_sort sorted_std_sort)

lemma sort_post_unique:
  fixes key :: "'a \<Rightarrow> 'k::linorder"
  assumes k: "\<And>a b. a \<in> set xs \<Longrightarrow> b \<in> set xs \<Longrightarrow> cmp a b \<longleftrightarrow> key a < key b"
    and inj: "inj_on key (set xs)"
    and ys: "sort_post cmp xs ys" and zs: "sort_post cmp xs zs"
  shows "ys = zs"
proof -
  from ys zs have m: "mset ys = mset xs" "mset zs = mset xs"
    and s: "sorted (map key ys)" "sorted (map key zs)"
    using sort_post_key [where key = key and cmp = cmp, OF k] by blast+
  have sets: "set ys = set xs" "set zs = set xs"
    using m by (metis set_mset_mset)+
  have "mset (map key ys) = mset (map key zs)" using m by simp
  then have "map key ys = map key zs"
    using s by (metis properties_for_sort)
  moreover have "inj_on key (set ys \<union> set zs)" using inj sets by simp
  ultimately show ?thesis by (simp add: inj_on_map_eq_map)
qed

lemma std_sort_unique:
  fixes key :: "'a \<Rightarrow> 'k::linorder"
  assumes k: "\<And>a b. a \<in> set xs \<Longrightarrow> b \<in> set xs \<Longrightarrow> cmp a b \<longleftrightarrow> key a < key b"
    and inj: "inj_on key (set xs)"
    and zs: "sort_post cmp xs zs"
  shows "std_sort cmp xs = zs"
  by (rule sort_post_unique [OF k inj sort_post_std_sort [where key = key, OF k] zs])

lemma sort_post_perm: "mset xs = mset ys \<Longrightarrow> sort_post cmp xs zs = sort_post cmp ys zs"
  by (simp add: sort_post_def)

subsection \<open>The comparator as an order of keys\<close>

lemma strcmp_same: "strcmp s s = 0"
  by (induction s) simp_all

lemma dex_comparator_dashed:
  "dashed a \<or> dashed b \<Longrightarrow> dex_comparator a b \<longleftrightarrow> sort_key a < sort_key b"
  by (auto simp: dex_comparator_def sort_key_def dashed_def suffix_number_def suffix_of_def Let_def)

lemma dex_comparator_undashed:
  "\<not> dashed a \<Longrightarrow> \<not> dashed b \<Longrightarrow> dex_comparator a b \<longleftrightarrow> strcmp (stem a) (stem b) > 1"
  by (simp add: dex_comparator_def dashed_def Let_def)

lemma dex_comparator_key_on:
  assumes "\<forall>a\<in>S. \<forall>b\<in>S. \<not> dashed a \<and> \<not> dashed b \<longrightarrow> a = b"
    and "a \<in> S" and "b \<in> S"
  shows "dex_comparator a b \<longleftrightarrow> sort_key a < sort_key b"
proof (cases "dashed a \<or> dashed b")
  case True
  then show ?thesis by (rule dex_comparator_dashed)
next
  case False
  then have "a = b" using assms by blast
  then show ?thesis using False
    by (simp add: dex_comparator_undashed strcmp_same)
qed

lemma strict_weak_order_on_key:
  fixes key :: "'a \<Rightarrow> 'k::linorder"
  assumes "\<And>a b. a \<in> S \<Longrightarrow> b \<in> S \<Longrightarrow> r a b \<longleftrightarrow> key a < key b"
  shows "strict_weak_order_on S r"
  unfolding strict_weak_order_on_def
proof (intro conjI ballI impI)
  fix a assume "a \<in> S"
  then show "\<not> r a a" using assms by simp
next
  fix a b c assume "a \<in> S" "b \<in> S" "c \<in> S" "r a b \<and> r b c"
  then show "r a c" using assms by (metis less_trans)
next
  fix a b c assume "a \<in> S" "b \<in> S" "c \<in> S" "\<not> r a b \<and> \<not> r b a \<and> \<not> r b c \<and> \<not> r c b"
  then have "key a = key b" "key b = key c" using assms by (simp_all add: not_less antisym)
  then show "\<not> r a c" using assms \<open>a \<in> S\<close> \<open>c \<in> S\<close> by simp
next
  fix a b c assume "a \<in> S" "b \<in> S" "c \<in> S" "\<not> r a b \<and> \<not> r b a \<and> \<not> r b c \<and> \<not> r c b"
  then have "key a = key b" "key b = key c" using assms by (simp_all add: not_less antisym)
  then show "\<not> r c a" using assms \<open>a \<in> S\<close> \<open>c \<in> S\<close> by simp
qed

lemma keys_example:
  "sort_key ''classes.dex'' = None"
  "sort_key ''secondary-1.dex'' = Some 1"
  "sort_key ''secondary-2.dex'' = Some 2"
  "sort_key ''secondary-10.dex'' = Some 10"
  by (simp_all add: sort_key_def dashed_def suffix_number_def suffix_of_def stem_def
      filename_def substr_after_last_def atoi_def strtol_def isspace_def isdigit_def
      to_int32_def LONG_MAX_def LONG_MIN_def)

lemma dashed_example:
  "\<not> dashed ''classes.dex''"
  "dashed ''secondary-1.dex''"
  "dashed ''secondary-2.dex''"
  "dashed ''secondary-10.dex''"
  by (simp_all add: dashed_def stem_def filename_def substr_after_last_def)

subsection \<open>atoi\<close>

lemma strtol_digits_takeWhile: "strtol_digits acc (takeWhile isdigit s) = strtol_digits acc s"
  by (induction s arbitrary: acc) simp_all

lemma strtol_digits_nonneg: "0 \<le> acc \<Longrightarrow> 0 \<le> strtol_digits acc s"
  by (induction s arbitrary: acc) (simp_all add: isdigit_def Let_def)

lemma strtol_digits_of:
  "CHR ''-'' \<notin> set s \<Longrightarrow> strtol s = max LONG_MIN (min LONG_MAX (strtol_digits 0 (digits_of s)))"
proof -
  assume a: "CHR ''-'' \<notin> set s"
  have "set (dropWhile isspace s) \<subseteq> set s" by (rule set_dropWhileD [THEN subsetI])
  then have b: "CHR ''-'' \<notin> set (dropWhile isspace s)" using a by blast
  show ?thesis
  proof (cases "dropWhile isspace s")
    case Nil
    then show ?thesis by (simp add: strtol_def digits_of_def del: dropWhile_eq_Nil_conv)
  next
    case (Cons c r)
    then have "c \<noteq> CHR ''-''" using b by auto
    then show ?thesis using Cons
      by (simp add: strtol_def digits_of_def strtol_digits_takeWhile
          strtol_digits_takeWhile [of 0 "c # r", simplified] del: dropWhile_eq_Nil_conv)
  qed
qed

lemma atoi_digits_of:
  assumes "CHR ''-'' \<notin> set s" and "strtol_digits 0 (digits_of s) < 2 ^ 31"
  shows "atoi s = strtol_digits 0 (digits_of s)"
proof -
  let ?v = "strtol_digits 0 (digits_of s)"
  have v0: "0 \<le> ?v" by (simp add: strtol_digits_nonneg)
  then have "strtol s = ?v"
    using assms by (simp add: strtol_digits_of LONG_MAX_def LONG_MIN_def)
  then show ?thesis using v0 assms(2) by (simp add: atoi_def to_int32_def)
qed

lemma rfind_None: "rfind c s = None \<longleftrightarrow> c \<notin> set s"
  by (induction s) (auto split: option.splits)

lemma rfind_Some_drop: "rfind c s = Some i \<Longrightarrow> c \<notin> set (drop (Suc i) s)"
  by (induction s arbitrary: i) (auto split: option.splits if_splits simp: rfind_None)

lemma substr_after_last_free: "c \<notin> set (substr_after_last c s)"
  by (auto simp: substr_after_last_def rfind_None dest: rfind_Some_drop split: option.splits)

lemma suffix_number_digits:
  "strtol_digits 0 (digits_of (suffix_of a)) < 2 ^ 31 \<Longrightarrow>
     suffix_number a = strtol_digits 0 (digits_of (suffix_of a))"
  unfolding suffix_number_def
  by (rule atoi_digits_of) (simp_all add: suffix_of_def substr_after_last_free)

lemma suffix_number_no_digits: "digits_of (suffix_of a) = [] \<Longrightarrow> suffix_number a = 0"
  using suffix_number_digits [of a] by simp

subsection \<open>Splitting and file names\<close>

lemma split_not_Nil: "split ds s \<noteq> []"
  by (induction s) (auto split: list.splits)

lemma split_append_delim:
  "c \<in> set ds \<Longrightarrow> split ds (s @ c # s') = split ds s @ split ds s'"
proof (induction s)
  case Nil
  then show ?case by simp
next
  case (Cons x xs)
  then show ?case
    using split_not_Nil [of ds xs] by (cases "split ds xs") auto
qed

lemma split_tokens_free: "\<forall>tok\<in>set (split ds s). \<forall>c\<in>set tok. c \<notin> set ds"
proof (induction s)
  case Nil
  then show ?case by simp
next
  case (Cons x xs)
  then show ?case
    by (cases "split ds xs") (simp_all split: if_splits)
qed

lemma length_split: "length (split ds s) = Suc (length (filter (\<lambda>c. c \<in> set ds) s))"
proof (induction s)
  case Nil
  then show ?case by simp
next
  case (Cons x xs)
  then show ?case by (cases "split ds xs") auto
qed

lemma rfind_last: "c \<notin> set name \<Longrightarrow> rfind c (pre @ c # name) = Some (length pre)"
proof (induction pre)
  case Nil
  have "rfind c name = None" using Nil by (induction name) (auto split: option.splits)
  then show ?case by simp
next
  case (Cons x pre)
  then show ?case by simp
qed

lemma filename_entry: "CHR ''/'' \<notin> set name \<Longrightarrow> filename (root @ CHR ''/'' # name) = name"
  using rfind_last [of "CHR ''/''" name root] by (simp add: filename_def substr_after_last_def)

lemma list_modules_loop_filter:
  "list_modules_loop env es =
     map filename (filter (\<lambda>file. is_directory env file \<and>
        is_regular_file env (file @ ''/'' @ filename file @ ''.json'')) es)"
  by (induction es)
     (auto simp: module_metadata_def preferred_separator_def is_regular_file_def
        exists_file_def Let_def)

lemma filename_prefixed:
  assumes "pre = [] \<or> last pre = CHR ''/''" and "CHR ''/'' \<notin> set n"
  shows "filename (pre @ n) = n"
proof (cases "pre = []")
  case True
  then show ?thesis using assms(2)
    by (simp add: filename_def substr_after_last_def rfind_None [THEN iffD2])
next
  case False
  then obtain q where "pre = q @ [CHR ''/'']" using assms(1)
    by (metis append_butlast_last_id)
  then show ?thesis using filename_entry [OF assms(2), of q] by simp
qed

lemma stem_prefixed:
  assumes "pre = [] \<or> last pre = CHR ''/''" and "CHR ''/'' \<notin> set n"
  shows "stem (pre @ n) = stem n"
  using filename_prefixed [OF assms] filename_prefixed [of "[]" n] assms(2)
  by (simp add: stem_def)

lemma sort_key_prefixed:
  assumes "pre = [] \<or> last pre = CHR ''/''" and "CHR ''/'' \<notin> set n"
  shows "sort_key (pre @ n) = sort_key n" and "dashed (pre @ n) = dashed n"
  using stem_prefixed [OF assms]
  by (simp_all add: sort_key_def dashed_def suffix_number_def suffix_of_def)

lemma list_modules_example: "list_modules example_env ''dexen'' = [''modA'']"
  by (simp add: io_defs filename_def substr_after_last_def example_env_def)

subsection \<open>The loading loops\<close>

lemma load_each_Inr:
  "load_each env fs store t = (Inr store', t') \<Longrightarrow>
     t' = t @ map LoadDex fs \<and> m_metadata store' = m_metadata store \<and>
     (\<exists>batches. m_dexen store' = m_dexen store @ batches \<and>
        map (load_classes_from_dex env) fs = map Inr batches)"
proof (induction fs arbitrary: store t)
  case Nil
  then show ?case by simp
next
  case (Cons f fs)
  then obtain classes where c: "load_classes_from_dex env f = Inr classes"
    by (cases "load_classes_from_dex env f") auto
  with Cons.prems have
    "load_each env fs (add_classes store classes) (t @ [LoadDex f]) = (Inr store', t')"
    by simp
  from Cons.IH [OF this] c show ?case by (auto simp: add_classes_def)
qed

lemma load_each_Inl:
  "load_each env fs store t = (Inl e, t') \<Longrightarrow>
     \<exists>pre f post. fs = pre @ f # post \<and> t' = t @ map LoadDex (pre @ [f]) \<and>
       load_classes_from_dex env f = Inl e \<and>
       (\<forall>g\<in>set pre. \<not> isl (load_classes_from_dex env g))"
proof (induction fs arbitrary: store t)
  case Nil
  then show ?case by simp
next
  case (Cons f fs)
  show ?case
  proof (cases "load_classes_from_dex env f")
    case (Inl e')
    with Cons.prems have "e' = e" "t' = t @ [LoadDex f]" by auto
    with Inl show ?thesis by (intro exI [of _ "[]"] exI [of _ f] exI [of _ fs]) simp
  next
    case (Inr classes)
    with Cons.prems have
      "load_each env fs (add_classes store classes) (t @ [LoadDex f]) = (Inl e, t')"
      by simp
    from Cons.IH [OF this] obtain pre g post where
      h: "fs = pre @ g # post" "t' = (t @ [LoadDex f]) @ map LoadDex (pre @ [g])"
        "load_classes_from_dex env g = Inl e"
        "\<forall>x\<in>set pre. \<not> isl (load_classes_from_dex env x)"
      by blast
    with Inr show ?thesis
      by (intro exI [of _ "f # pre"] exI [of _ g] exI [of _ post]) simp
  qed
qed

lemma load_jars_fail:
  "jars = pre @ j # post \<Longrightarrow> \<forall>a\<in>set pre. load_jar_file env a \<Longrightarrow> \<not> load_jar_file env j \<Longrightarrow>
     load_jars env jars t = (Inl (jar_error j), t @ map LoadJar (pre @ [j]))"
  by (induction pre arbitrary: jars t) (simp_all add: jar_error_def)

lemma load_jars_ok:
  "\<forall>a\<in>set jars. load_jar_file env a \<Longrightarrow> load_jars env jars t = (Inr (), t @ map LoadJar jars)"
  by (induction jars arbitrary: t) simp_all

lemma load_jars_reach:
  "jars = pre @ j # post \<Longrightarrow> \<forall>a\<in>set pre. load_jar_file env a \<Longrightarrow>
     LoadJar j \<in> set (snd (load_jars env jars t))"
proof (cases "load_jar_file env j")
  case False
  assume "jars = pre @ j # post" "\<forall>a\<in>set pre. load_jar_file env a"
  from load_jars_fail [OF this False] show ?thesis by simp
next
  case True
  assume h: "jars = pre @ j # post" "\<forall>a\<in>set pre. load_jar_file env a"
  show ?thesis
  proof (cases "\<forall>a\<in>set post. load_jar_file env a")
    case True
    then have "\<forall>a\<in>set jars. load_jar_file env a" using h \<open>load_jar_file env j\<close> by auto
    from load_jars_ok [OF this] show ?thesis using h by simp
  next
    case False
    then have "\<exists>a\<in>set post. \<not> load_jar_file env a" by simp
    from split_list_first_prop [OF this]
    obtain q k r where qr: "post = q @ k # r" "\<forall>a\<in>set q. load_jar_file env a"
      and "\<not> load_jar_file env k" by auto
    then have "jars = (pre @ j # q) @ k # r" "\<forall>a\<in>set (pre @ j # q). load_jar_file env a"
      using h \<open>load_jar_file env j\<close> by auto
    from load_jars_fail [OF this \<open>\<not> load_jar_file env k\<close>] show ?thesis by simp
  qed
qed

lemma load_jars_cases:
  "(\<forall>a\<in>set jars. load_jar_file env a) \<or>
   (\<exists>pre j post. jars = pre @ j # post \<and> (\<forall>a\<in>set pre. load_jar_file env a) \<and> \<not> load_jar_file env j)"
proof (cases "\<exists>a\<in>set jars. \<not> load_jar_file env a")
  case True
  from split_list_first_prop [OF this] show ?thesis by auto
next
  case False
  then show ?thesis by simp
qed

lemma loads_ok_jars: "loads_ok env (map LoadJar js)"
  by (auto simp: loads_ok_def)

lemma loads_ok_snoc:
  "loads_ok env (t @ [ev]) \<longleftrightarrow>
     loads_ok env t \<and> (\<forall>p. ev = LoadDex p \<longrightarrow> \<not> isl (load_classes_from_dex env p))"
  by (auto simp: loads_ok_def)

lemma load_each_shape:
  "loads_ok env t \<Longrightarrow> load_each env fs store t = (r, t') \<Longrightarrow>
     (case r of Inr s \<Rightarrow> loads_ok env t' | Inl e \<Rightarrow> aborted env e t')"
proof (induction fs arbitrary: store t)
  case Nil
  then show ?case by auto
next
  case (Cons f fs)
  show ?case
  proof (cases "load_classes_from_dex env f")
    case (Inl e)
    then have "aborted env e (t @ [LoadDex f])"
      using Cons.prems(1) by (auto simp: aborted_def)
    then show ?thesis using Inl Cons.prems(2) by auto
  next
    case (Inr classes)
    then have "loads_ok env (t @ [LoadDex f])"
      using Cons.prems(1) by (simp add: loads_ok_snoc)
    moreover have "load_each env fs (add_classes store classes) (t @ [LoadDex f]) = (r, t')"
      using Inr Cons.prems(2) by simp
    ultimately show ?thesis by (rule Cons.IH)
  qed
qed

lemma load_each_no_jar:
  "\<exists>rest. snd (load_each env fs store t) = t @ rest \<and> (\<forall>a. LoadJar a \<notin> set rest)"
proof (induction fs arbitrary: store t)
  case Nil
  then show ?case by simp
next
  case (Cons f fs)
  show ?case
  proof (cases "load_classes_from_dex env f")
    case (Inl e)
    then show ?thesis by simp
  next
    case (Inr classes)
    from Cons.IH [of "add_classes store classes" "t @ [LoadDex f]"] Inr
    show ?thesis by auto
  qed
qed

lemma load_modules_Inr:
  "load_modules env d ms stores t = (Inr stores', t') \<Longrightarrow>
     \<exists>new. stores' = stores @ new \<and> list_all2 (module_store env d) ms new"
proof (induction ms arbitrary: stores t)
  case Nil
  then show ?case by simp
next
  case (Cons m ms)
  let ?p = "metadata_path_of d m"
  let ?t1 = "t @ [ParseMetadata ?p]"
  from Cons.prems obtain md where md: "parse env ?p = Inr md"
    by (cases "parse env ?p") (auto simp: Let_def)
  obtain r t2 where l: "load_store_dexen env (DexStore_of md) md ?t1 = (r, t2)"
    by (cases "load_store_dexen env (DexStore_of md) md ?t1")
  with Cons.prems md obtain store where s: "r = Inr store"
    and rest: "load_modules env d ms (stores @ [store]) t2 = (Inr stores', t')"
    by (cases r) (auto simp: Let_def)
  from l s have "load_each env (files md) (DexStore_of md) ?t1 = (Inr store, t2)"
    by (simp add: load_store_dexen_def)
  from load_each_Inr [OF this] have "module_store env d m store"
    using md by (auto simp: module_store_def DexStore_of_def)
  moreover from Cons.IH [OF rest] obtain new where
    "stores' = (stores @ [store]) @ new" "list_all2 (module_store env d) ms new" by blast
  ultimately show ?case by (intro exI [of _ "store # new"]) simp
qed

lemma load_modules_shape:
  "loads_ok env t \<Longrightarrow> load_modules env d ms stores t = (r, t') \<Longrightarrow>
     (case r of Inr s \<Rightarrow> loads_ok env t' | Inl e \<Rightarrow> aborted env e t')"
proof (induction ms arbitrary: stores t)
  case Nil
  then show ?case by auto
next
  case (Cons m ms)
  let ?p = "metadata_path_of d m"
  let ?t1 = "t @ [ParseMetadata ?p]"
  have ok1: "loads_ok env ?t1" using Cons.prems(1) by (simp add: loads_ok_snoc)
  show ?case
  proof (cases "parse env ?p")
    case (Inl e)
    then have "r = Inl e" "t' = ?t1" using Cons.prems(2) by (auto simp: Let_def)
    moreover have "aborted env e ?t1" using Cons.prems(1) by (auto simp: aborted_def)
    ultimately show ?thesis by simp
  next
    case (Inr md)
    obtain r1 t2 where l: "load_store_dexen env (DexStore_of md) md ?t1 = (r1, t2)"
      by (cases "load_store_dexen env (DexStore_of md) md ?t1")
    then have sh: "case r1 of Inr s \<Rightarrow> loads_ok env t2 | Inl e \<Rightarrow> aborted env e t2"
      using load_each_shape [OF ok1] by (simp add: load_store_dexen_def)
    show ?thesis
    proof (cases r1)
      case (Inl e)
      then have "r = Inl e" "t' = t2" using Cons.prems(2) Inr l by (auto simp: Let_def)
      then show ?thesis using sh Inl by simp
    next
      case (Inr store)
      then have "load_modules env d ms (stores @ [store]) t2 = (r, t')"
        using Cons.prems(2) \<open>parse env ?p = Inr md\<close> l by (simp add: Let_def)
      moreover have "loads_ok env t2" using sh Inr by simp
      ultimately show ?thesis using Cons.IH by blast
    qed
  qed
qed

lemma load_modules_no_jar:
  "\<exists>rest. snd (load_modules env d ms stores t) = t @ rest \<and> (\<forall>a. LoadJar a \<notin> set rest)"
proof (induction ms arbitrary: stores t)
  case Nil
  then show ?case by simp
next
  case (Cons m ms)
  let ?p = "metadata_path_of d m"
  let ?t1 = "t @ [ParseMetadata ?p]"
  show ?case
  proof (cases "parse env ?p")
    case (Inl e)
    then show ?thesis by (simp add: Let_def)
  next
    case (Inr md)
    obtain r1 t2 where l: "load_store_dexen env (DexStore_of md) md ?t1 = (r1, t2)"
      by (cases "load_store_dexen env (DexStore_of md) md ?t1")
    from load_each_no_jar [of env "files md" "DexStore_of md" ?t1] l
    obtain rest1 where r1: "t2 = ?t1 @ rest1" "\<forall>a. LoadJar a \<notin> set rest1"
      by (auto simp: load_store_dexen_def)
    show ?thesis
    proof (cases r1)
      case (Inl e)
      then show ?thesis using Inr l r1 by (simp add: Let_def)
    next
      case (Inr store)
      from Cons.IH [of "stores @ [store]" t2] obtain rest2 where
        "snd (load_modules env d ms (stores @ [store]) t2) = t2 @ rest2"
        "\<forall>a. LoadJar a \<notin> set rest2" by blast
      then show ?thesis using Inr \<open>parse env ?p = Inr md\<close> l r1
        by (intro exI [of _ "ParseMetadata ?p # rest1 @ rest2"]) (simp add: Let_def)
    qed
  qed
qed

subsection \<open>Tool::init\<close>

lemma init_jar_fail:
  assumes "is_directory env d" and "split '':,'' paths = pre @ j # post"
    and "\<forall>a\<in>set pre. load_jar_file env a" and "\<not> load_jar_file env j"
  shows "init env paths apk d = (Inl (jar_error j), map LoadJar (pre @ [j]))"
  using load_jars_fail [OF assms(2,3,4), of "[]"] assms(1) by (simp add: init_def)

lemma init_jars_ok:
  assumes "is_directory env d" and "\<forall>a\<in>set (split '':,'' paths). load_jar_file env a"
  shows "init env paths apk d =
     (case load_root_dexen env (DexStore_named ''dex'') d (map LoadJar (split '':,'' paths)) of
        (Inl e, t1) \<Rightarrow> (Inl e, t1)
      | (Inr root_store, t1) \<Rightarrow>
          (case load_modules env d (list_modules env d) [root_store] t1 of
             (Inl e, t2) \<Rightarrow> (Inl e, t2)
           | (Inr stores, t2) \<Rightarrow> (Inr stores, t2 @ [InitReachable (build_class_scope stores)])))"
  using load_jars_ok [OF assms(2), of "[]"] assms(1) by (simp add: init_def)

lemma init_Inr:
  assumes "init env paths apk d = (Inr stores, t)"
  shows "\<exists>root_store t1 t2.
     is_directory env d \<and> (\<forall>a\<in>set (split '':,'' paths). load_jar_file env a) \<and>
     load_root_dexen env (DexStore_named ''dex'') d (map LoadJar (split '':,'' paths))
       = (Inr root_store, t1) \<and>
     load_modules env d (list_modules env d) [root_store] t1 = (Inr stores, t2) \<and>
     t = t2 @ [InitReachable (build_class_scope stores)]"
proof -
  have dir: "is_directory env d" using assms by (auto simp: init_def split: if_splits)
  have jars: "\<forall>a\<in>set (split '':,'' paths). load_jar_file env a"
  proof (rule ccontr)
    assume "\<not> ?thesis"
    then obtain pre j post where "split '':,'' paths = pre @ j # post"
        "\<forall>a\<in>set pre. load_jar_file env a" "\<not> load_jar_file env j"
      using load_jars_cases [of "split '':,'' paths" env] by blast
    from init_jar_fail [OF dir this] assms show False by simp
  qed
  show ?thesis
    using assms dir jars unfolding init_jars_ok [OF dir jars]
    by (auto split: prod.splits sum.splits)
qed

lemma init_shape:
  "case init env paths apk d of
     (Inr stores, t) \<Rightarrow> (\<exists>t0 scope. t = t0 @ [InitReachable scope] \<and> loads_ok env t0)
   | (Inl e, t) \<Rightarrow> t = [] \<or> aborted env e t"
proof (cases "is_directory env d")
  case False
  then show ?thesis by (simp add: init_def)
next
  case dir: True
  let ?jars = "split '':,'' paths"
  show ?thesis
  proof (cases "\<forall>a\<in>set ?jars. load_jar_file env a")
    case False
    then obtain pre j post where "?jars = pre @ j # post"
        "\<forall>a\<in>set pre. load_jar_file env a" "\<not> load_jar_file env j"
      using load_jars_cases [of ?jars env] by blast
    from init_jar_fail [OF dir this]
    have "init env paths apk d = (Inl (jar_error j), map LoadJar pre @ [LoadJar j])" by simp
    moreover have "aborted env (jar_error j) (map LoadJar pre @ [LoadJar j])"
      unfolding aborted_def using loads_ok_jars [of env pre] by blast
    ultimately show ?thesis by simp
  next
    case jars: True
    let ?tj = "map LoadJar ?jars"
    obtain r1 t1 where root: "load_root_dexen env (DexStore_named ''dex'') d ?tj = (r1, t1)"
      by (cases "load_root_dexen env (DexStore_named ''dex'') d ?tj")
    then have sh1: "case r1 of Inr s \<Rightarrow> loads_ok env t1 | Inl e \<Rightarrow> aborted env e t1"
      using load_each_shape [OF loads_ok_jars [of env ?jars]]
      by (simp add: load_root_dexen_def Let_def)
    show ?thesis
    proof (cases r1)
      case (Inl e)
      then show ?thesis using sh1 root by (simp add: init_jars_ok [OF dir jars])
    next
      case (Inr root_store)
      then have ok1: "loads_ok env t1" using sh1 by simp
      obtain r2 t2 where
        mods: "load_modules env d (list_modules env d) [root_store] t1 = (r2, t2)"
        by (cases "load_modules env d (list_modules env d) [root_store] t1")
      from load_modules_shape [OF ok1 mods]
      have sh2: "case r2 of Inr s \<Rightarrow> loads_ok env t2 | Inl e \<Rightarrow> aborted env e t2" .
      show ?thesis
        using sh2 root mods Inr by (cases r2) (simp_all add: init_jars_ok [OF dir jars])
    qed
  qed
qed

lemma init_trace_jars:
  assumes dir: "is_directory env d"
    and jars: "\<forall>a\<in>set (split '':,'' paths). load_jar_file env a"
  shows "\<exists>rest. snd (init env paths apk d) = map LoadJar (split '':,'' paths) @ rest \<and>
           (\<forall>a. LoadJar a \<notin> set rest)"
proof -
  let ?jars = "split '':,'' paths"
  let ?tj = "map LoadJar ?jars"
  let ?dexen = "std_sort dex_comparator (discover_dexen env (directory_entries env d))"
  obtain r1 t1 where root: "load_root_dexen env (DexStore_named ''dex'') d ?tj = (r1, t1)"
    by (cases "load_root_dexen env (DexStore_named ''dex'') d ?tj")
  then have "snd (load_each env ?dexen (DexStore_named ''dex'') ?tj) = t1"
    by (simp add: load_root_dexen_def Let_def)
  with load_each_no_jar [of env ?dexen "DexStore_named ''dex''" ?tj]
  obtain rest1 where r1: "t1 = ?tj @ rest1" "\<forall>a. LoadJar a \<notin> set rest1"
    by auto
  show ?thesis
  proof (cases r1)
    case (Inl e)
    then show ?thesis using root r1 by (simp add: init_jars_ok [OF dir jars])
  next
    case (Inr root_store)
    obtain r2 t2 where
      mods: "load_modules env d (list_modules env d) [root_store] t1 = (r2, t2)"
      by (cases "load_modules env d (list_modules env d) [root_store] t1")
    from load_modules_no_jar [of env d "list_modules env d" "[root_store]" t1] mods
    obtain rest2 where r2: "t2 = t1 @ rest2" "\<forall>a. LoadJar a \<notin> set rest2" by auto
    show ?thesis
    proof (cases r2)
      case (Inl e)
      then show ?thesis using root mods Inr r1 r2 by (simp add: init_jars_ok [OF dir jars])
    next
      case (Inr stores)
      then show ?thesis using root mods \<open>r1 = Inr root_store\<close> r1 r2
        by (intro exI [of _ "rest1 @ rest2 @ [InitReachable (build_class_scope stores)]"])
           (simp add: init_jars_ok [OF dir jars])
    qed
  qed
qed

lemma example_dir: "is_directory example_env ''dexen''"
  by (simp add: is_directory_def example_env_def)

lemma init_example:
  "init example_env ''a.jar'' ''apk'' ''dexen'' =
     (Inr [\<lparr>m_metadata = \<lparr>id_str = ''dex'', dependencies = [], files = []\<rparr>,
            m_dexen = [[''dexen/classes.dex''], [''dexen/secondary-1.dex'']]\<rparr>,
           \<lparr>m_metadata = example_metadata, m_dexen = [[''b.dex''], [''a.dex'']]\<rparr>],
      [LoadJar ''a.jar'', LoadDex ''dexen/classes.dex'', LoadDex ''dexen/secondary-1.dex'',
       ParseMetadata ''dexen/modA/modA.json'', LoadDex ''b.dex'', LoadDex ''a.dex'',
       InitReachable [''dexen/classes.dex'', ''dexen/secondary-1.dex'', ''b.dex'', ''a.dex'']])"
  by (simp add: io_defs order_defs example_env_def example_metadata_def)

lemma init_failing:
  "init failing_env ''a.jar'' ''apk'' ''dexen'' =
     (Inl (LoadFailure ''a.dex''),
      [LoadJar ''a.jar'', LoadDex ''dexen/classes.dex'', LoadDex ''dexen/secondary-1.dex'',
       ParseMetadata ''dexen/modA/modA.json'', LoadDex ''b.dex'', LoadDex ''a.dex''])"
  by (simp add: io_defs order_defs example_env_def failing_env_def example_metadata_def)

lemma list_modules_two: "list_modules two_module_env ''dexen'' = [''modB'', ''modA'']"
  by (simp add: io_defs filename_def substr_after_last_def two_module_env_def)

lemma init_two:
  "init two_module_env ''a.jar'' ''apk'' ''dexen'' =
     (Inr [\<lparr>m_metadata = \<lparr>id_str = ''dex'', dependencies = [], files = []\<rparr>,
            m_dexen = [[''dexen/classes.dex'']]\<rparr>,
           \<lparr>m_metadata = \<lparr>id_str = ''modB'', dependencies = [], files = [''b1.dex'']\<rparr>,
            m_dexen = [[''b1.dex'']]\<rparr>,
           \<lparr>m_metadata =
              \<lparr>id_str = ''modA'', dependencies = [], files = [''a2.dex'', ''a1.dex'']\<rparr>,
            m_dexen = [[''a2.dex''], [''a1.dex'']]\<rparr>],
      [LoadJar ''a.jar'', LoadDex ''dexen/classes.dex'',
       ParseMetadata ''dexen/modB/modB.json'', LoadDex ''b1.dex'',
       ParseMetadata ''dexen/modA/modA.json'', LoadDex ''a2.dex'', LoadDex ''a1.dex'',
       InitReachable [''dexen/classes.dex'', ''b1.dex'', ''a2.dex'', ''a1.dex'']])"
  by (simp add: io_defs order_defs two_module_env_def)

section \<open>The claims\<close>

text \<open>
  Claim C1. Whatever order the directory yields the four files \<open>secondary-2.dex\<close>,
  \<open>classes.dex\<close>, \<open>secondary-10.dex\<close> and \<open>secondary-1.dex\<close> in, as bare names
  or as paths of one directory, the sort of \<open>load_root_dexen\<close> with \<open>dex_comparator\<close>
  puts them in the order \<open>classes.dex\<close>, \<open>secondary-1.dex\<close>, \<open>secondary-2.dex\<close>,
  \<open>secondary-10.dex\<close>; and this is the only order that meets the postcondition of
  \<open>std::sort\<close>.
\<close>

theorem example_order:
  assumes pre: "pre = [] \<or> last pre = CHR ''/''"
    and xs: "mset xs = mset (map ((@) pre)
      [''secondary-2.dex'', ''classes.dex'', ''secondary-10.dex'', ''secondary-1.dex''])"
  shows "std_sort dex_comparator xs = map ((@) pre)
       [''classes.dex'', ''secondary-1.dex'', ''secondary-2.dex'', ''secondary-10.dex''] \<and>
     (\<forall>ys. sort_post dex_comparator xs ys \<longrightarrow> ys = map ((@) pre)
       [''classes.dex'', ''secondary-1.dex'', ''secondary-2.dex'', ''secondary-10.dex''])"
proof -
  let ?S = "{pre @ ''secondary-2.dex'', pre @ ''classes.dex'', pre @ ''secondary-10.dex'',
    pre @ ''secondary-1.dex''}"
  let ?zs = "map ((@) pre)
    [''classes.dex'', ''secondary-1.dex'', ''secondary-2.dex'', ''secondary-10.dex'']"
  have keys: "sort_key (pre @ ''classes.dex'') = None"
      "sort_key (pre @ ''secondary-1.dex'') = Some 1"
      "sort_key (pre @ ''secondary-2.dex'') = Some 2"
      "sort_key (pre @ ''secondary-10.dex'') = Some 10"
    by (simp_all add: sort_key_prefixed [OF pre] keys_example)
  have dashes: "\<not> dashed (pre @ ''classes.dex'')" "dashed (pre @ ''secondary-1.dex'')"
      "dashed (pre @ ''secondary-2.dex'')" "dashed (pre @ ''secondary-10.dex'')"
    by (simp_all add: sort_key_prefixed [OF pre] dashed_example)
  have S: "set xs = ?S"
    using xs [THEN arg_cong [where f = set_mset]] by simp
  have one: "\<forall>a\<in>?S. \<forall>b\<in>?S. \<not> dashed a \<and> \<not> dashed b \<longrightarrow> a = b"
    by (simp add: dashes)
  have k: "\<And>a b. a \<in> set xs \<Longrightarrow> b \<in> set xs \<Longrightarrow> dex_comparator a b \<longleftrightarrow> sort_key a < sort_key b"
    using dex_comparator_key_on [OF one] S by simp
  have inj: "inj_on sort_key (set xs)"
    unfolding S by (simp add: keys)
  have "mset ?zs = mset xs" unfolding xs by simp
  moreover have "sorted (map sort_key ?zs)" by (simp add: keys)
  ultimately have post: "sort_post dex_comparator xs ?zs"
    using sort_post_key [where key = sort_key, OF k] by simp
  have "std_sort dex_comparator xs = ?zs"
    using std_sort_unique [where key = sort_key and cmp = dex_comparator, OF k inj post] .
  moreover have "\<forall>ys. sort_post dex_comparator xs ys \<longrightarrow> ys = ?zs"
    using sort_post_unique [where key = sort_key and cmp = dex_comparator, OF k inj _ post]
    by blast
  ultimately show ?thesis by simp
qed

theorem example_order_witness:
  "std_sort dex_comparator
     [''dexen/secondary-10.dex'', ''dexen/secondary-2.dex'', ''dexen/secondary-1.dex'',
      ''dexen/classes.dex''] =
   [''dexen/classes.dex'', ''dexen/secondary-1.dex'', ''dexen/secondary-2.dex'',
    ''dexen/secondary-10.dex''] \<and>
   std_sort dex_comparator
     [''secondary-2.dex'', ''classes.dex'', ''secondary-10.dex'', ''secondary-1.dex''] =
   [''classes.dex'', ''secondary-1.dex'', ''secondary-2.dex'', ''secondary-10.dex'']"
proof -
  have p: "''dexen/'' = [] \<or> last ''dexen/'' = CHR ''/''" by simp
  have m: "mset [''dexen/secondary-10.dex'', ''dexen/secondary-2.dex'',
       ''dexen/secondary-1.dex'', ''dexen/classes.dex''] =
     mset (map ((@) ''dexen/'')
       [''secondary-2.dex'', ''classes.dex'', ''secondary-10.dex'', ''secondary-1.dex''])"
    by simp
  have q: "([]::string) = [] \<or> last [] = CHR ''/''" by simp
  have n: "mset [''secondary-2.dex'', ''classes.dex'', ''secondary-10.dex'', ''secondary-1.dex''] =
     mset (map ((@) [])
       [''secondary-2.dex'', ''classes.dex'', ''secondary-10.dex'', ''secondary-1.dex''])"
    by simp
  from example_order [OF p m] example_order [OF q n] show ?thesis by simp
qed

text \<open>
  Claim C2, as amended. On a set of names of which at most one has a stem without dash,
  \<open>dex_comparator\<close> is a strict weak order. When moreover the names with a dash have
  pairwise different suffix numbers, any two different names of the set are ordered, and
  sorting any enumeration of the set gives the same sequence, which is the only sequence
  that meets the postcondition of \<open>std::sort\<close>.
\<close>

theorem dex_comparator_order:
  assumes one: "\<forall>a\<in>S. \<forall>b\<in>S. \<not> dashed a \<and> \<not> dashed b \<longrightarrow> a = b"
  shows "strict_weak_order_on S dex_comparator \<and>
    ((\<forall>a\<in>S. \<forall>b\<in>S. dashed a \<and> dashed b \<and> suffix_number a = suffix_number b \<longrightarrow> a = b) \<longrightarrow>
       (\<forall>a\<in>S. \<forall>b\<in>S. a \<noteq> b \<longrightarrow> dex_comparator a b \<or> dex_comparator b a) \<and>
       (\<forall>xs ys. set xs = S \<and> mset ys = mset xs \<longrightarrow>
          std_sort dex_comparator ys = std_sort dex_comparator xs \<and>
          (\<forall>zs. sort_post dex_comparator ys zs \<longrightarrow> zs = std_sort dex_comparator xs)))"
proof (intro conjI impI)
  note k = dex_comparator_key_on [OF one]
  show "strict_weak_order_on S dex_comparator"
    by (rule strict_weak_order_on_key [where key = sort_key]) (rule k)
  assume dist: "\<forall>a\<in>S. \<forall>b\<in>S. dashed a \<and> dashed b \<and> suffix_number a = suffix_number b \<longrightarrow> a = b"
  have inj: "inj_on sort_key S"
  proof (rule inj_onI)
    fix a b assume ab: "a \<in> S" "b \<in> S" "sort_key a = sort_key b"
    show "a = b"
    proof (cases "dashed a")
      case True
      then show ?thesis using ab dist by (auto simp: sort_key_def split: if_splits)
    next
      case False
      then show ?thesis using ab one by (auto simp: sort_key_def split: if_splits)
    qed
  qed
  show "\<forall>a\<in>S. \<forall>b\<in>S. a \<noteq> b \<longrightarrow> dex_comparator a b \<or> dex_comparator b a"
    using inj k by (metis inj_onD neqE)
  show "\<forall>xs ys. set xs = S \<and> mset ys = mset xs \<longrightarrow>
          std_sort dex_comparator ys = std_sort dex_comparator xs \<and>
          (\<forall>zs. sort_post dex_comparator ys zs \<longrightarrow> zs = std_sort dex_comparator xs)"
  proof (intro allI impI conjI)
    fix xs ys zs
    assume h: "set xs = S \<and> mset ys = mset xs"
    then have kx: "\<And>a b. a \<in> set xs \<Longrightarrow> b \<in> set xs \<Longrightarrow> dex_comparator a b \<longleftrightarrow> sort_key a < sort_key b"
      using k by simp
    have ix: "inj_on sort_key (set xs)" using h inj by simp
    have "sort_post dex_comparator ys (std_sort dex_comparator ys)"
      by (rule sort_post_std_sort [where key = sort_key])
         (use h k in \<open>metis set_mset_mset\<close>)
    then have "sort_post dex_comparator xs (std_sort dex_comparator ys)"
      using h by (simp add: sort_post_perm [of ys xs])
    then show "std_sort dex_comparator ys = std_sort dex_comparator xs"
      using std_sort_unique [OF kx ix] by simp
    assume "sort_post dex_comparator ys zs"
    then have "sort_post dex_comparator xs zs"
      using h by (simp add: sort_post_perm [of ys xs])
    then show "zs = std_sort dex_comparator xs"
      using std_sort_unique [OF kx ix] by simp
  qed
qed

theorem dex_comparator_order_witness:
  "strict_weak_order_on {''classes.dex'', ''secondary-1.dex'', ''secondary-2.dex''}
     dex_comparator \<and>
   std_sort dex_comparator [''secondary-2.dex'', ''classes.dex'', ''secondary-1.dex''] =
   std_sort dex_comparator [''classes.dex'', ''secondary-1.dex'', ''secondary-2.dex'']"
proof -
  let ?S = "{''classes.dex'', ''secondary-1.dex'', ''secondary-2.dex''}"
  have one: "\<forall>a\<in>?S. \<forall>b\<in>?S. \<not> dashed a \<and> \<not> dashed b \<longrightarrow> a = b"
    by (simp add: dashed_example)
  have k: "suffix_number ''secondary-1.dex'' = 1" "suffix_number ''secondary-2.dex'' = 2"
    by (simp_all add: order_defs dashed_def suffix_number_def suffix_of_def)
  have dist: "\<forall>a\<in>?S. \<forall>b\<in>?S. dashed a \<and> dashed b \<and> suffix_number a = suffix_number b \<longrightarrow> a = b"
    by (simp add: dashed_example k)
  have s: "set [''classes.dex'', ''secondary-1.dex'', ''secondary-2.dex''] = ?S" by simp
  have m: "mset [''secondary-2.dex'', ''classes.dex'', ''secondary-1.dex''] =
     mset [''classes.dex'', ''secondary-1.dex'', ''secondary-2.dex'']" by simp
  from dex_comparator_order [OF one] dist s m show ?thesis by blast
qed

text \<open>
  The claim as stated fails: \<open>secondary-foo.dex\<close> and \<open>secondary-0.dex\<close> are two
  names neither of which the comparator puts before the other, and the sort returns them
  in the order it was given them.
\<close>

theorem enumeration_order_counterexample:
  "\<not> dex_comparator ''secondary-foo.dex'' ''secondary-0.dex'' \<and>
   \<not> dex_comparator ''secondary-0.dex'' ''secondary-foo.dex'' \<and>
   std_sort dex_comparator [''secondary-foo.dex'', ''secondary-0.dex''] =
     [''secondary-foo.dex'', ''secondary-0.dex''] \<and>
   std_sort dex_comparator [''secondary-0.dex'', ''secondary-foo.dex''] =
     [''secondary-0.dex'', ''secondary-foo.dex''] \<and>
   std_sort dex_comparator [''secondary-foo.dex'', ''secondary-0.dex''] \<noteq>
     std_sort dex_comparator [''secondary-0.dex'', ''secondary-foo.dex'']"
  by (simp add: order_defs std_sort_def insertion_step_def)

text \<open>
  Claim C3. Two different stems without dash are to be ordered one before the other by
  comparing their bytes. The code tests \<open>strcmp(as, bs) > 1\<close>: for \<open>classes2.dex\<close> and
  \<open>classes3.dex\<close>, whose stems differ by one in the first differing byte, it puts
  neither before the other; and it puts \<open>classes2.dex\<close> before \<open>classes.dex\<close>, so that
  \<open>classes.dex\<close> is not sorted first.
\<close>

theorem undashed_names_unordered:
  "\<not> dex_comparator ''classes2.dex'' ''classes3.dex'' \<and>
   \<not> dex_comparator ''classes3.dex'' ''classes2.dex'' \<and>
   dex_comparator ''classes2.dex'' ''classes.dex'' \<and>
   std_sort dex_comparator [''classes.dex'', ''classes2.dex''] =
     [''classes2.dex'', ''classes.dex'']"
  by (simp add: order_defs std_sort_def insertion_step_def)

text \<open>
  Claim C4, as amended. For two names whose stems have a dash, \<open>dex_comparator\<close> orders
  by the number \<open>atoi\<close> makes of the substring after the last dash, ascending. That
  number is the value of the leading decimal digits (after white space and an optional
  plus sign) and is not negative, as long as the value is below \<open>2 ^ 31\<close>. A suffix with
  no leading digit gives 0: two such names are not ordered, and each sorts before every
  name whose number is positive.
\<close>

theorem dashed_order:
  assumes "dashed a" and "dashed b"
  shows "(dex_comparator a b \<longleftrightarrow> suffix_number a < suffix_number b) \<and>
    (strtol_digits 0 (digits_of (suffix_of a)) < 2 ^ 31 \<longrightarrow>
       suffix_number a = strtol_digits 0 (digits_of (suffix_of a)) \<and> 0 \<le> suffix_number a) \<and>
    (digits_of (suffix_of a) = [] \<longrightarrow> suffix_number a = 0) \<and>
    (digits_of (suffix_of a) = [] \<and> digits_of (suffix_of b) = [] \<longrightarrow>
       \<not> dex_comparator a b \<and> \<not> dex_comparator b a) \<and>
    (digits_of (suffix_of a) = [] \<and> 0 < suffix_number b \<longrightarrow>
       dex_comparator a b \<and> \<not> dex_comparator b a)"
proof -
  have c: "\<And>x y. dashed x \<Longrightarrow> dashed y \<Longrightarrow>
      dex_comparator x y \<longleftrightarrow> suffix_number x < suffix_number y"
    by (simp add: dex_comparator_dashed sort_key_def)
  have "strtol_digits 0 (digits_of (suffix_of a)) < 2 ^ 31 \<longrightarrow>
       suffix_number a = strtol_digits 0 (digits_of (suffix_of a)) \<and> 0 \<le> suffix_number a"
    by (simp add: suffix_number_digits strtol_digits_nonneg)
  then show ?thesis
    using assms by (simp add: c suffix_number_no_digits strtol_digits_nonneg)
qed

theorem dashed_order_witness:
  "suffix_number ''secondary-foo.dex'' = 0 \<and>
   dex_comparator ''secondary-foo.dex'' ''secondary-7.dex'' \<and>
   \<not> dex_comparator ''secondary-7.dex'' ''secondary-foo.dex'' \<and>
   \<not> dex_comparator ''secondary-foo.dex'' ''secondary-bar.dex'' \<and>
   \<not> dex_comparator ''secondary-bar.dex'' ''secondary-foo.dex'' \<and>
   \<not> dex_comparator ''secondary-foo.dex'' ''secondary-0.dex'' \<and>
   \<not> dex_comparator ''secondary-0.dex'' ''secondary-foo.dex''"
proof -
  have d: "dashed ''secondary-foo.dex''" "dashed ''secondary-7.dex''"
      "dashed ''secondary-bar.dex''" "dashed ''secondary-0.dex''"
    by (simp_all add: dashed_def stem_def filename_def substr_after_last_def)
  have e: "digits_of (suffix_of ''secondary-foo.dex'') = []"
      "digits_of (suffix_of ''secondary-bar.dex'') = []"
    by (simp_all add: order_defs dashed_def suffix_number_def suffix_of_def digits_of_def)
  have n: "suffix_number ''secondary-7.dex'' = 7" "suffix_number ''secondary-0.dex'' = 0"
    by (simp_all add: order_defs dashed_def suffix_number_def suffix_of_def digits_of_def)
  from dashed_order [OF d(1) d(2)] e n
  have a: "suffix_number ''secondary-foo.dex'' = 0 \<and>
      dex_comparator ''secondary-foo.dex'' ''secondary-7.dex'' \<and>
      \<not> dex_comparator ''secondary-7.dex'' ''secondary-foo.dex''"
    by simp
  from dashed_order [OF d(1) d(3)] e
  have b: "\<not> dex_comparator ''secondary-foo.dex'' ''secondary-bar.dex'' \<and>
      \<not> dex_comparator ''secondary-bar.dex'' ''secondary-foo.dex''"
    by blast
  from dashed_order [OF d(1) d(4)] dashed_order [OF d(4) d(1)] a n
  have c: "\<not> dex_comparator ''secondary-foo.dex'' ''secondary-0.dex'' \<and>
      \<not> dex_comparator ''secondary-0.dex'' ''secondary-foo.dex''"
    by simp
  from a b c show ?thesis by simp
qed

text \<open>
  The claim as stated fails twice. The suffix \<open>1foo\<close> is no number, yet it parses as 1,
  so \<open>secondary-1foo.dex\<close> sorts after \<open>secondary-foo.dex\<close> and not with it. The
  suffix \<open>2147483648\<close> does not fit a 32-bit \<open>int\<close> and parses as a negative number, so
  \<open>secondary-2147483648.dex\<close> sorts before \<open>secondary-0.dex\<close>.
\<close>

theorem nonnumeric_suffix_counterexample:
  "suffix_of ''secondary-1foo.dex'' = ''1foo'' \<and>
   suffix_number ''secondary-1foo.dex'' = 1 \<and>
   dex_comparator ''secondary-foo.dex'' ''secondary-1foo.dex'' \<and>
   suffix_of ''secondary-2147483648.dex'' = ''2147483648'' \<and>
   suffix_number ''secondary-2147483648.dex'' = - 2147483648 \<and>
   dex_comparator ''secondary-2147483648.dex'' ''secondary-0.dex''"
  by (simp add: order_defs dashed_def suffix_number_def suffix_of_def)

text \<open>
  Claim C5. When the directory iterator yields the entries \<open>root/name\<close>, the module
  list holds exactly the names for which \<open>root/name\<close> is a directory and
  \<open>root/name/name.json\<close> is a regular file, in the order of the entries.
\<close>

theorem module_qualification:
  assumes "directory_entries env root = map (\<lambda>name. root @ ''/'' @ name) names"
    and "\<forall>name\<in>set names. CHR ''/'' \<notin> set name"
  shows "list_modules env root =
     filter (\<lambda>name. is_directory env (root @ ''/'' @ name) \<and>
        is_regular_file env (root @ ''/'' @ name @ ''/'' @ name @ ''.json'')) names"
proof -
  have "list_modules_loop env (map (\<lambda>name. root @ ''/'' @ name) names) =
     filter (\<lambda>name. is_directory env (root @ ''/'' @ name) \<and>
        is_regular_file env (root @ ''/'' @ name @ ''/'' @ name @ ''.json'')) names"
    using assms(2)
  proof (induction names)
    case Nil
    then show ?case by simp
  next
    case (Cons n ns)
    then have "filename (root @ ''/'' @ n) = n" by (simp add: filename_entry)
    then show ?case using Cons
      by (simp add: list_modules_loop_filter)
  qed
  then show ?thesis by (simp add: list_modules_def assms(1))
qed

theorem module_qualification_witness:
  "list_modules example_env ''dexen'' = [''modA'']"
proof -
  have e: "directory_entries example_env ''dexen'' =
      map (\<lambda>name. ''dexen'' @ ''/'' @ name) [''modB'', ''secondary-1.dex'', ''modA'', ''classes.dex'']"
    by (simp add: example_env_def)
  have n: "\<forall>name\<in>set [''modB'', ''secondary-1.dex'', ''modA'', ''classes.dex'']. CHR ''/'' \<notin> set name"
    by simp
  show ?thesis
    unfolding module_qualification [OF e n]
    by (simp add: example_env_def is_directory_def is_regular_file_def)
qed

text \<open>
  Claim C6. \<open>load_store_dexen\<close> loads the files of the metadata in the order the
  metadata lists them: a run that returns has loaded all of them in that order and has
  added one batch of classes per file in that order; a run that raises has loaded an
  initial segment of the list, and the exception is that of its last file.
\<close>

theorem load_store_dexen_order:
  "(load_store_dexen env store md t = (Inr store', t') \<longrightarrow>
      t' = t @ map LoadDex (files md) \<and>
      (\<exists>batches. m_dexen store' = m_dexen store @ batches \<and>
         map (load_classes_from_dex env) (files md) = map Inr batches)) \<and>
   (load_store_dexen env store md t = (Inl e, t') \<longrightarrow>
      (\<exists>pre f post. files md = pre @ f # post \<and> t' = t @ map LoadDex (pre @ [f]) \<and>
         load_classes_from_dex env f = Inl e))"
  unfolding load_store_dexen_def
  using load_each_Inr [of env "files md" store t store' t']
    load_each_Inl [of env "files md" store t e t']
  by blast

theorem load_store_dexen_order_witness:
  "load_store_dexen example_env (DexStore_of example_metadata) example_metadata [] =
     (Inr \<lparr>m_metadata = example_metadata, m_dexen = [[''b.dex''], [''a.dex'']]\<rparr>,
      [LoadDex ''b.dex'', LoadDex ''a.dex'']) \<and>
   load_store_dexen failing_env (DexStore_of example_metadata) example_metadata [] =
     (Inl (LoadFailure ''a.dex''), [LoadDex ''b.dex'', LoadDex ''a.dex''])"
proof -
  obtain r t where ok: "load_store_dexen example_env (DexStore_of example_metadata)
      example_metadata [] = (r, t)"
    by (cases "load_store_dexen example_env (DexStore_of example_metadata) example_metadata []")
  have "\<not> isl r" using ok by (auto simp: io_defs example_env_def example_metadata_def)
  then obtain store' where r: "r = Inr store'" by (cases r) auto
  have meta: "m_metadata store' = example_metadata"
    using ok r by (auto simp: io_defs example_env_def example_metadata_def)
  from load_store_dexen_order [of example_env "DexStore_of example_metadata"
      example_metadata "[]" store' t] ok r
  have "t = [LoadDex ''b.dex'', LoadDex ''a.dex'']"
    and "m_dexen store' = [[''b.dex''], [''a.dex'']]"
    by (auto simp: example_metadata_def DexStore_of_def example_env_def)
  then have first: "load_store_dexen example_env (DexStore_of example_metadata)
      example_metadata [] =
     (Inr \<lparr>m_metadata = example_metadata, m_dexen = [[''b.dex''], [''a.dex'']]\<rparr>,
      [LoadDex ''b.dex'', LoadDex ''a.dex''])"
    using ok r meta by (cases store') simp
  have "load_store_dexen failing_env (DexStore_of example_metadata) example_metadata [] =
     (Inl (LoadFailure ''a.dex''), [LoadDex ''b.dex'', LoadDex ''a.dex''])"
    by (simp add: io_defs example_env_def failing_env_def example_metadata_def)
  with first show ?thesis by simp
qed

text \<open>
  Claim C7. The jar paths are the pieces of the argument between commas and colons, and
  they are loaded from left to right. When the first jar that does not load is \<open>j\<close>,
  \<open>Tool::init\<close> raises the runtime error that names \<open>j\<close>, and the calls made are the
  loads of the jars up to \<open>j\<close>: no later jar and no dex file. When every jar loads, all
  jar loads come first in the trace.
\<close>

theorem classpath_fail_fast:
  assumes dir: "is_directory env d"
  shows "(split '':,'' paths = pre @ j # post \<and> (\<forall>a\<in>set pre. load_jar_file env a) \<and>
          \<not> load_jar_file env j \<longrightarrow>
            init env paths apk d =
              (Inl (RuntimeError (''Could not load system jar file '' @ quote @ j @ quote)),
               map LoadJar (pre @ [j]))) \<and>
     ((\<forall>a\<in>set (split '':,'' paths). load_jar_file env a) \<longrightarrow>
        (\<exists>rest. snd (init env paths apk d) = map LoadJar (split '':,'' paths) @ rest \<and>
           (\<forall>a. LoadJar a \<notin> set rest))) \<and>
     (\<forall>tok\<in>set (split '':,'' paths). CHR '','' \<notin> set tok \<and> CHR '':'' \<notin> set tok) \<and>
     length (split '':,'' paths) =
       Suc (length (filter (\<lambda>c. c = CHR '','' \<or> c = CHR '':'') paths))"
proof (intro conjI impI)
  assume "split '':,'' paths = pre @ j # post \<and> (\<forall>a\<in>set pre. load_jar_file env a) \<and>
          \<not> load_jar_file env j"
  then show "init env paths apk d =
              (Inl (RuntimeError (''Could not load system jar file '' @ quote @ j @ quote)),
               map LoadJar (pre @ [j]))"
    using init_jar_fail [OF dir, of paths pre j post] by (simp add: jar_error_def)
next
  assume "\<forall>a\<in>set (split '':,'' paths). load_jar_file env a"
  then show "\<exists>rest. snd (init env paths apk d) = map LoadJar (split '':,'' paths) @ rest \<and>
           (\<forall>a. LoadJar a \<notin> set rest)"
    by (rule init_trace_jars [OF dir])
next
  show "\<forall>tok\<in>set (split '':,'' paths). CHR '','' \<notin> set tok \<and> CHR '':'' \<notin> set tok"
    using split_tokens_free [of "'':,''" paths] by auto
next
  have "(\<lambda>c. c \<in> set '':,'') = (\<lambda>c. c = CHR '','' \<or> c = CHR '':'')" by auto
  then show "length (split '':,'' paths) =
       Suc (length (filter (\<lambda>c. c = CHR '','' \<or> c = CHR '':'') paths))"
    by (simp add: length_split)
qed

theorem classpath_fail_fast_witness:
  "init example_env ''a.jar,b.jar:c.jar'' ''apk'' ''dexen'' =
     (Inl (RuntimeError (''Could not load system jar file '' @ quote @ ''b.jar'' @ quote)),
      [LoadJar ''a.jar'', LoadJar ''b.jar'']) \<and>
   (\<exists>rest. snd (init example_env ''a.jar:c.jar'' ''apk'' ''dexen'') =
      [LoadJar ''a.jar'', LoadJar ''c.jar''] @ rest \<and> (\<forall>a. LoadJar a \<notin> set rest))"
proof -
  have s1: "split '':,'' ''a.jar,b.jar:c.jar'' = [''a.jar''] @ ''b.jar'' # [''c.jar'']"
    by simp
  have p1: "\<forall>a\<in>set [''a.jar'']. load_jar_file example_env a"
    and f1: "\<not> load_jar_file example_env ''b.jar''"
    by (simp_all add: example_env_def)
  have s2: "split '':,'' ''a.jar:c.jar'' = [''a.jar'', ''c.jar'']" by simp
  have p2: "\<forall>a\<in>set (split '':,'' ''a.jar:c.jar''). load_jar_file example_env a"
    unfolding s2 by (simp add: example_env_def)
  from classpath_fail_fast [OF example_dir, of "''a.jar,b.jar:c.jar''" "[''a.jar'']"
      "''b.jar''" "[''c.jar'']" "''apk''"] s1 p1 f1
  have a: "init example_env ''a.jar,b.jar:c.jar'' ''apk'' ''dexen'' =
     (Inl (RuntimeError (''Could not load system jar file '' @ quote @ ''b.jar'' @ quote)),
      [LoadJar ''a.jar'', LoadJar ''b.jar''])"
    by simp
  from classpath_fail_fast [OF example_dir, of "''a.jar:c.jar''" "[]" "[]" "[]" "''apk''"] p2
  have "\<exists>rest. snd (init example_env ''a.jar:c.jar'' ''apk'' ''dexen'') =
      map LoadJar (split '':,'' ''a.jar:c.jar'') @ rest \<and> (\<forall>a. LoadJar a \<notin> set rest)"
    by blast
  with a show ?thesis unfolding s2 by simp
qed

text \<open>
  Claim C8. When \<open>Tool::init\<close> returns, the vector holds one store more than there are
  modules; the first store is named \<open>dex\<close> and holds one batch for each dex file
  discovered in the directory; the store at index \<open>i + 1\<close> is the store of the \<open>i\<close>-th
  module, and the modules are in the order of the directory entries.
\<close>

theorem store_collection_shape:
  assumes "init env paths apk d = (Inr stores, t)"
  shows "length stores = length (list_modules env d) + 1 \<and>
     get_name (stores ! 0) = ''dex'' \<and>
     (\<exists>loaded. mset loaded = mset (discover_dexen env (directory_entries env d)) \<and>
        map (load_classes_from_dex env) loaded = map Inr (m_dexen (stores ! 0))) \<and>
     (\<forall>i < length (list_modules env d).
        module_store env d (list_modules env d ! i) (stores ! (i + 1))) \<and>
     list_modules env d =
       map filename (filter (\<lambda>file. is_directory env file \<and>
          is_regular_file env (file @ ''/'' @ filename file @ ''.json''))
          (directory_entries env d))"
proof -
  let ?dexen = "discover_dexen env (directory_entries env d)"
  from init_Inr [OF assms] obtain root_store t1 t2 where
    root: "load_root_dexen env (DexStore_named ''dex'') d (map LoadJar (split '':,'' paths))
       = (Inr root_store, t1)"
    and mods: "load_modules env d (list_modules env d) [root_store] t1 = (Inr stores, t2)"
    by blast
  from root have
    "load_each env (std_sort dex_comparator ?dexen)
       (DexStore_named ''dex'') (map LoadJar (split '':,'' paths)) = (Inr root_store, t1)"
    by (simp add: load_root_dexen_def Let_def)
  from load_each_Inr [OF this] have
    r: "get_name root_store = ''dex''"
      "map (load_classes_from_dex env) (std_sort dex_comparator ?dexen)
         = map Inr (m_dexen root_store)"
    by (auto simp: get_name_def DexStore_named_def)
  have p: "\<exists>loaded. mset loaded = mset ?dexen \<and>
      map (load_classes_from_dex env) loaded = map Inr (m_dexen root_store)"
    using r(2) mset_std_sort [of dex_comparator ?dexen] by blast
  from load_modules_Inr [OF mods] obtain new where
    n: "stores = [root_store] @ new" "list_all2 (module_store env d) (list_modules env d) new"
    by blast
  then have "length new = length (list_modules env d)"
    by (simp add: list_all2_lengthD)
  moreover have "\<forall>i < length (list_modules env d).
        module_store env d (list_modules env d ! i) (new ! i)"
    using n(2) by (simp add: list_all2_conv_all_nth)
  moreover have "list_modules env d =
       map filename (filter (\<lambda>file. is_directory env file \<and>
          is_regular_file env (file @ ''/'' @ filename file @ ''.json''))
          (directory_entries env d))"
    by (simp add: list_modules_def list_modules_loop_filter)
  ultimately show ?thesis using n(1) r(1) p by simp
qed

theorem store_collection_shape_witness:
  "\<exists>stores t. init two_module_env ''a.jar'' ''apk'' ''dexen'' = (Inr stores, t) \<and>
     length stores = 3 \<and> map get_name stores = [''dex'', ''modB'', ''modA''] \<and>
     module_store two_module_env ''dexen'' ''modB'' (stores ! 1) \<and>
     module_store two_module_env ''dexen'' ''modA'' (stores ! 2)"
proof -
  obtain stores t where
    i: "init two_module_env ''a.jar'' ''apk'' ''dexen'' = (Inr stores, t)"
    using init_two by blast
  note shape = store_collection_shape [OF i]
  from shape have "length stores = length (list_modules two_module_env ''dexen'') + 1"
    and root: "get_name (stores ! 0) = ''dex''"
    and "\<forall>i < length (list_modules two_module_env ''dexen'').
      module_store two_module_env ''dexen'' (list_modules two_module_env ''dexen'' ! i)
        (stores ! (i + 1))"
    by blast+
  then have len: "length stores = 3"
    and all: "\<forall>i < 2. module_store two_module_env ''dexen'' ([''modB'', ''modA''] ! i)
      (stores ! (i + 1))"
    by (simp_all add: list_modules_two)
  from all [rule_format, of 0] all [rule_format, of 1]
  have m: "module_store two_module_env ''dexen'' ''modB'' (stores ! 1)"
      "module_store two_module_env ''dexen'' ''modA'' (stores ! 2)"
    by (simp_all add: numeral_2_eq_2)
  have "Inr (m_metadata (stores ! 1)) = parse two_module_env ''dexen/modB/modB.json''"
    using m(1) by (simp add: module_store_def metadata_path_of_def preferred_separator_def)
  also have "\<dots> = Inr \<lparr>id_str = ''modB'', dependencies = [], files = [''b1.dex'']\<rparr>"
    by (simp add: two_module_env_def)
  finally have nb: "get_name (stores ! 1) = ''modB''"
    by (simp add: get_name_def)
  have "Inr (m_metadata (stores ! 2)) = parse two_module_env ''dexen/modA/modA.json''"
    using m(2) by (simp add: module_store_def metadata_path_of_def preferred_separator_def)
  also have "\<dots> =
      Inr \<lparr>id_str = ''modA'', dependencies = [], files = [''a2.dex'', ''a1.dex'']\<rparr>"
    by (simp add: two_module_env_def)
  finally have na: "get_name (stores ! 2) = ''modA''"
    by (simp add: get_name_def)
  note names = nb na
  obtain s0 s1 s2 where st: "stores = [s0, s1, s2]"
    using len by (auto simp: length_Suc_conv numeral_3_eq_3)
  then have g: "map get_name stores = [''dex'', ''modB'', ''modA'']"
    using root names by simp
  show ?thesis
  proof (intro exI conjI)
    show "init two_module_env ''a.jar'' ''apk'' ''dexen'' = (Inr stores, t)" by (rule i)
    show "length stores = 3" by (rule len)
    show "map get_name stores = [''dex'', ''modB'', ''modA'']" by (rule g)
    show "module_store two_module_env ''dexen'' ''modB'' (stores ! 1)" by (rule m(1))
    show "module_store two_module_env ''dexen'' ''modA'' (stores ! 2)" by (rule m(2))
  qed
qed

text \<open>
  Claim C9. When the trace of \<open>Tool::init\<close> holds the load of a dex file that does not
  load, that load is the last call made and \<open>Tool::init\<close> raises the exception of the
  loader: no vector of stores is returned.
\<close>

theorem all_or_nothing:
  assumes "LoadDex p \<in> set (snd (init env paths apk d))"
    and "load_classes_from_dex env p = Inl e"
  shows "fst (init env paths apk d) = Inl e \<and> last (snd (init env paths apk d)) = LoadDex p"
proof -
  obtain r t where i: "init env paths apk d = (r, t)" by (cases "init env paths apk d")
  have bad: "\<not> loads_ok env t0" if "LoadDex p \<in> set t0" for t0
    using that assms(2) by (auto simp: loads_ok_def)
  have p: "LoadDex p \<in> set t" using assms(1) i by simp
  show ?thesis
  proof (cases r)
    case (Inr stores)
    then obtain t0 scope where "t = t0 @ [InitReachable scope]" "loads_ok env t0"
      using init_shape [of env paths apk d] i by auto
    then show ?thesis using p bad by auto
  next
    case (Inl e')
    then have "t = [] \<or> aborted env e' t"
      using init_shape [of env paths apk d] i by simp
    then obtain t0 ev where t: "t = t0 @ [ev]" "loads_ok env t0"
        "\<forall>q. ev = LoadDex q \<longrightarrow> load_classes_from_dex env q = Inl e'"
      using p by (auto simp: aborted_def)
    then have "ev = LoadDex p" using p bad by auto
    then show ?thesis using t assms(2) i Inl by simp
  qed
qed

theorem all_or_nothing_witness:
  "fst (init failing_env ''a.jar'' ''apk'' ''dexen'') = Inl (LoadFailure ''a.dex'') \<and>
   last (snd (init failing_env ''a.jar'' ''apk'' ''dexen'')) = LoadDex ''a.dex''"
proof -
  have "LoadDex ''a.dex'' \<in> set (snd (init failing_env ''a.jar'' ''apk'' ''dexen''))"
    by (simp add: init_failing)
  moreover have "load_classes_from_dex failing_env ''a.dex'' = Inl (LoadFailure ''a.dex'')"
    by (simp add: failing_env_def)
  ultimately show ?thesis by (rule all_or_nothing)
qed

text \<open>
  Claim C10. Splitting keeps empty pieces: the empty argument gives one empty piece, and
  a leading, a trailing or a doubled delimiter gives one. An empty piece is passed to
  \<open>load_jar_file\<close> when the jars before it load, and when it does not load
  \<open>Tool::init\<close> raises the runtime error that names the empty path.
\<close>

theorem empty_tokens_loaded:
  "split '':,'' [] = [[]] \<and>
   (c \<in> set '':,'' \<longrightarrow>
      hd (split '':,'' (c # s)) = [] \<and> last (split '':,'' (s @ [c])) = [] \<and>
      (c' \<in> set '':,'' \<longrightarrow> [] \<in> set (split '':,'' (s @ [c, c'] @ s')))) \<and>
   (is_directory env d \<and> split '':,'' paths = pre @ [] # post \<and>
    (\<forall>a\<in>set pre. load_jar_file env a) \<longrightarrow>
      LoadJar [] \<in> set (snd (init env paths apk d)) \<and>
      (\<not> load_jar_file env [] \<longrightarrow>
         init env paths apk d =
           (Inl (RuntimeError (''Could not load system jar file '' @ quote @ quote)),
            map LoadJar (pre @ [[]]))))"
proof (intro conjI impI)
  show "split '':,'' [] = [[]]" by simp
next
  assume "c \<in> set '':,''"
  then show "hd (split '':,'' (c # s)) = []" by auto
next
  assume c: "c \<in> set '':,''"
  have "split '':,'' (s @ [c]) = split '':,'' s @ split '':,'' []"
    by (rule split_append_delim [OF c])
  then show "last (split '':,'' (s @ [c])) = []" by simp
next
  assume c: "c \<in> set '':,''" and c': "c' \<in> set '':,''"
  have "split '':,'' (s @ c # c' # s') = split '':,'' s @ split '':,'' (c' # s')"
    by (rule split_append_delim [OF c])
  then show "[] \<in> set (split '':,'' (s @ [c, c'] @ s'))" using c' by auto
next
  assume h: "is_directory env d \<and> split '':,'' paths = pre @ [] # post \<and>
    (\<forall>a\<in>set pre. load_jar_file env a)"
  then have dir: "is_directory env d" by simp
  have reach: "LoadJar [] \<in> set (snd (load_jars env (split '':,'' paths) []))"
    by (rule load_jars_reach [of _ pre "[]" post]) (use h in auto)
  show "LoadJar [] \<in> set (snd (init env paths apk d))"
  proof (cases "\<forall>a\<in>set (split '':,'' paths). load_jar_file env a")
    case True
    from init_trace_jars [OF dir True, of apk] h show ?thesis by auto
  next
    case False
    then obtain pre' j' post' where f: "split '':,'' paths = pre' @ j' # post'"
        "\<forall>a\<in>set pre'. load_jar_file env a" "\<not> load_jar_file env j'"
      using load_jars_cases [of "split '':,'' paths" env] by blast
    from load_jars_fail [OF f, of "[]"] init_jar_fail [OF dir f, of apk] reach
    show ?thesis by simp
  qed
next
  assume h: "is_directory env d \<and> split '':,'' paths = pre @ [] # post \<and>
    (\<forall>a\<in>set pre. load_jar_file env a)" and f: "\<not> load_jar_file env []"
  with init_jar_fail [of env d paths pre "[]" post]
  show "init env paths apk d =
           (Inl (RuntimeError (''Could not load system jar file '' @ quote @ quote)),
            map LoadJar (pre @ [[]]))"
    by (simp add: jar_error_def)
qed

theorem empty_tokens_loaded_witness:
  "[] \<in> set (split '':,'' ''a.jar,,b.jar'') \<and>
   hd (split '':,'' '',a.jar'') = [] \<and> last (split '':,'' ''a.jar:'') = [] \<and>
   LoadJar [] \<in> set (snd (init example_env ''a.jar,,b.jar'' ''apk'' ''dexen'')) \<and>
   init example_env ''a.jar,,b.jar'' ''apk'' ''dexen'' =
     (Inl (RuntimeError (''Could not load system jar file '' @ quote @ quote)),
      [LoadJar ''a.jar'', LoadJar []])"
proof -
  have s: "split '':,'' ''a.jar,,b.jar'' = [''a.jar''] @ [] # [''b.jar'']" by simp
  have p: "\<forall>a\<in>set [''a.jar'']. load_jar_file example_env a"
    and f: "\<not> load_jar_file example_env []"
    by (simp_all add: example_env_def)
  have c: "CHR '','' \<in> set '':,''" "CHR '':'' \<in> set '':,''" by simp_all
  from empty_tokens_loaded [where env = example_env and d = "''dexen''"
      and paths = "''a.jar,,b.jar''" and pre = "[''a.jar'']" and post = "[''b.jar'']"
      and apk = "''apk''" and c = "CHR '',''" and c' = "CHR '',''" and s = "''a.jar''"
      and s' = "''b.jar''"]
    s p f c example_dir
  have a: "[] \<in> set (split '':,'' ''a.jar,,b.jar'') \<and>
    LoadJar [] \<in> set (snd (init example_env ''a.jar,,b.jar'' ''apk'' ''dexen'')) \<and>
    init example_env ''a.jar,,b.jar'' ''apk'' ''dexen'' =
     (Inl (RuntimeError (''Could not load system jar file '' @ quote @ quote)),
      [LoadJar ''a.jar'', LoadJar []])"
    by simp
  from empty_tokens_loaded [where env = example_env and c = "CHR '',''" and s = "''a.jar''"] c
  have b: "hd (split '':,'' '',a.jar'') = []" by simp
  from empty_tokens_loaded [where env = example_env and c = "CHR '':''" and s = "''a.jar''"] c
  have "last (split '':,'' ''a.jar:'') = []" by simp
  with a b show ?thesis by simp
qed

end
